theory Spec2Isabelle
  imports
    Main
    "HOL-Library.List_Lexorder"
    "HOL-Library.Product_Lexorder"
    "HOL-Library.Multiset"
begin

section \<open>Python strings\<close>

text \<open>
  A Python \<^verbatim>\<open>str\<close> is the list of its code points. A literal of the source, which is
  ASCII text, is written as an Isabelle string and turned into its code points by
  \<^verbatim>\<open>text_of\<close>.
\<close>

type_synonym pystr = "nat list"

definition text_of :: "string \<Rightarrow> pystr" where
  "text_of s = map of_char s"

text \<open>
  \<^verbatim>\<open>str.strip()\<close> removes from both ends the code points for which \<^verbatim>\<open>str.isspace\<close>
  holds. They are the 29 code points below.
\<close>

definition is_space :: "nat \<Rightarrow> bool" where
  "is_space c =
     ((9 \<le> c \<and> c \<le> 13) \<or> (28 \<le> c \<and> c \<le> 32) \<or> c = 0x85 \<or> c = 0xA0 \<or> c = 0x1680 \<or>
      (0x2000 \<le> c \<and> c \<le> 0x200A) \<or> c = 0x2028 \<or> c = 0x2029 \<or> c = 0x202F \<or>
      c = 0x205F \<or> c = 0x3000)"

definition strip :: "pystr \<Rightarrow> pystr" where
  "strip s = rev (dropWhile is_space (rev (dropWhile is_space s)))"

text \<open>
  \<^verbatim>\<open>str.upper()\<close> replaces every code point by its upper-case mapping, which may be
  several code points, and \<^verbatim>\<open>str.lower()\<close> replaces every code point by its lower-case
  mapping, which for some code points depends on their neighbours. On ASCII both are known
  in full: the 26 letters are mapped and nothing else changes. Beyond ASCII the mappings are
  tables of Python's Unicode database, which is not part of the program; they are the
  parameter \<^verbatim>\<open>u\<close> of every function that changes case: \<^verbatim>\<open>upper_beyond u c\<close> is the
  upper-case mapping of the code point \<^verbatim>\<open>c\<close>, and \<^verbatim>\<open>lower_beyond u s i\<close> is the lower-case
  mapping of the code point at position \<^verbatim>\<open>i\<close> of the string \<^verbatim>\<open>s\<close>.
\<close>

record unicode =
  upper_beyond :: "nat \<Rightarrow> pystr"
  lower_beyond :: "pystr \<Rightarrow> nat \<Rightarrow> pystr"

definition upper_code :: "unicode \<Rightarrow> nat \<Rightarrow> pystr" where
  "upper_code u c =
     (if c < 128 then [if 97 \<le> c \<and> c \<le> 122 then c - 32 else c] else upper_beyond u c)"

definition upper :: "unicode \<Rightarrow> pystr \<Rightarrow> pystr" where
  "upper u s = concat (map (upper_code u) s)"

definition lower_code :: "unicode \<Rightarrow> pystr \<Rightarrow> nat \<Rightarrow> pystr" where
  "lower_code u s i =
     (let c = s ! i in
      if c < 128 then [if 65 \<le> c \<and> c \<le> 90 then c + 32 else c] else lower_beyond u s i)"

definition lower :: "unicode \<Rightarrow> pystr \<Rightarrow> pystr" where
  "lower u s = concat (map (lower_code u s) [0..<length s])"

definition startswith :: "'a list \<Rightarrow> 'a list \<Rightarrow> bool" where
  "startswith s p = (take (length p) s = p)"

text \<open>\<^verbatim>\<open>needle in hay\<close>: the needle starts at some position of the hay.\<close>

fun contains :: "'a list \<Rightarrow> 'a list \<Rightarrow> bool" where
  "contains needle [] = (needle = [])"
| "contains needle (c # hay) = (startswith (c # hay) needle \<or> contains needle hay)"

text \<open>\<^verbatim>\<open>sep.join(parts)\<close>.\<close>

fun join :: "'a list \<Rightarrow> 'a list list \<Rightarrow> 'a list" where
  "join sep [] = []"
| "join sep [p] = p"
| "join sep (p # q # ps) = p @ sep @ join sep (q # ps)"

text \<open>\<^verbatim>\<open>s or ""\<close> for a value that is a string or None.\<close>

definition or_empty :: "pystr option \<Rightarrow> pystr" where
  "or_empty s = (case s of None \<Rightarrow> [] | Some t \<Rightarrow> t)"

text \<open>
  \<^verbatim>\<open>str(n)\<close> and the \<^verbatim>\<open>{n}\<close> of an f-string for a Python integer: the decimal digits,
  most significant first, after a minus sign for a negative number.
\<close>

definition digit_char :: "nat \<Rightarrow> char" where
  "digit_char d = ''0123456789'' ! d"

fun str_nat :: "nat \<Rightarrow> string" where
  "str_nat n = (if n < 10 then [digit_char n] else str_nat (n div 10) @ [digit_char (n mod 10)])"

definition str_int :: "int \<Rightarrow> string" where
  "str_int i = (if i < 0 then CHR ''-'' # str_nat (nat (- i)) else str_nat (nat i))"

text \<open>
  Reading a result back: the number a string of decimal digits denotes, and the grade number
  of a starting point \<^verbatim>\<open>"Grade N"\<close> (None for any string that does not start with
  \<^verbatim>\<open>"Grade "\<close>, as \<^verbatim>\<open>"DISCONTINUE"\<close>). These two are observers used to state properties
  of the returned strings; the program itself never parses them.
\<close>

definition digit_val :: "char \<Rightarrow> nat" where
  "digit_val c = of_char c - 48"

definition digits_value :: "string \<Rightarrow> nat" where
  "digits_value s = foldl (\<lambda>acc c. 10 * acc + digit_val c) 0 s"

definition grade_number :: "string \<Rightarrow> int option" where
  "grade_number s =
     (if startswith s ''Grade '' then Some (int (digits_value (drop 6 s))) else None)"

section \<open>Configuration and stored records\<close>

definition DISCONTINUE_THRESHOLD :: int where
  "DISCONTINUE_THRESHOLD = 28"

definition ONE_BELOW_THRESHOLD :: int where
  "ONE_BELOW_THRESHOLD = 16"

text \<open>
  The two database models. Every column is nullable, so a stored field is a value or None;
  a Boolean column is tested by Python truthiness, where None is false.
\<close>

record Class =
  teacher :: "pystr option"
  school :: "pystr option"
  grade :: int
  section_name :: "pystr option"
  date_text :: "pystr option"

record Learner =
  name :: "pystr option"
  gender :: "pystr option"
  took_eng :: "bool option"
  took_fil :: "bool option"
  eng_literal :: "int option"
  eng_inferential :: "int option"
  eng_critical :: "int option"
  fil_literal :: "int option"
  fil_inferential :: "int option"
  fil_critical :: "int option"

definition truthy :: "bool option \<Rightarrow> bool" where
  "truthy b = (case b of None \<Rightarrow> False | Some v \<Rightarrow> v)"

section \<open>Logic helpers\<close>

text \<open>
  \<^verbatim>\<open>int(x or 0)\<close> for a sub-score that is an integer or None: None and 0 are falsy and
  give the literal 0, any other integer is kept, and \<^verbatim>\<open>int\<close> of an integer is that integer.
\<close>

definition int_or_zero :: "int option \<Rightarrow> int" where
  "int_or_zero x = (case x of None \<Rightarrow> 0 | Some n \<Rightarrow> (if n = 0 then 0 else n))"

definition compute_total :: "int option \<Rightarrow> int option \<Rightarrow> int option \<Rightarrow> int" where
  "compute_total lit inf_in cri = int_or_zero lit + int_or_zero inf_in + int_or_zero cri"

definition starting_point_for :: "int \<Rightarrow> int \<Rightarrow> string" where
  "starting_point_for grade_in total_in =
     (if total_in \<ge> DISCONTINUE_THRESHOLD then ''DISCONTINUE''
      else
        let base = max 1 (grade_in - 1);
            start_level = max 1 (if total_in \<ge> ONE_BELOW_THRESHOLD then base - 1 else base - 2)
        in ''Grade '' @ str_int start_level)"

definition gender_bucket :: "unicode \<Rightarrow> pystr option \<Rightarrow> nat" where
  "gender_bucket u g0 =
     (let g = upper u (strip (or_empty g0)) in
      if startswith g (text_of ''M'') then 0
      else if startswith g (text_of ''F'') then 1
      else 2)"

text \<open>
  A roster row, the dict with the keys \<^verbatim>\<open>name\<close>, \<^verbatim>\<open>gender\<close>, \<^verbatim>\<open>score\<close> and \<^verbatim>\<open>start\<close>.
  A key that is absent reads as its default \<^verbatim>\<open>""\<close> through \<^verbatim>\<open>r.get\<close>, which the sort
  key treats as it treats None, so both are the value None here. The start is the string
  that \<^verbatim>\<open>starting_point_for\<close> returned.
\<close>

record row =
  row_name :: "pystr option"
  row_gender :: "pystr option"
  score :: int
  start :: string

definition sort_key_of :: "unicode \<Rightarrow> row \<Rightarrow> nat \<times> pystr" where
  "sort_key_of u r = (gender_bucket u (row_gender r), upper u (strip (or_empty (row_name r))))"

text \<open>
  Python's \<^verbatim>\<open>sorted\<close> is a stable sort by the key; tuples compare lexicographically and
  strings by code point. A stable sort has one possible result, which the insertion sort
  \<^const>\<open>sort_key\<close> computes.
\<close>

definition sort_rows :: "unicode \<Rightarrow> row list \<Rightarrow> row list" where
  "sort_rows u rows = sort_key (sort_key_of u) rows"

section \<open>The roster of the English screening test\<close>

text \<open>
  The loop of the view \<^verbatim>\<open>gst_en\<close> over the learners of the class, with the list
  \<^verbatim>\<open>rows\<close> it appends to, and the rows the view renders.
\<close>

fun gst_en_loop :: "Class \<Rightarrow> Learner list \<Rightarrow> row list \<Rightarrow> row list" where
  "gst_en_loop c [] rows = rows"
| "gst_en_loop c (s # learners) rows =
     (if \<not> truthy (took_eng s) then gst_en_loop c learners rows
      else
        let total = compute_total (eng_literal s) (eng_inferential s) (eng_critical s);
            sp = starting_point_for (grade c) total
        in if sp \<noteq> ''DISCONTINUE''
           then gst_en_loop c learners
                  (rows @ [\<lparr>row_name = name s, row_gender = gender s, score = total, start = sp\<rparr>])
           else gst_en_loop c learners rows)"

definition gst_en :: "unicode \<Rightarrow> Class \<Rightarrow> Learner list \<Rightarrow> row list" where
  "gst_en u c learners = sort_rows u (gst_en_loop c learners [])"

text \<open>
  The same loop as \<^verbatim>\<open>export_gst_en_docx\<close> writes it, the rows it hands to the document
  builder, and the rows the builder writes after it has sorted them once more.
\<close>

fun export_gst_en_loop :: "Class \<Rightarrow> Learner list \<Rightarrow> row list \<Rightarrow> row list" where
  "export_gst_en_loop c [] rows = rows"
| "export_gst_en_loop c (s # learners) rows =
     (if \<not> truthy (took_eng s) then export_gst_en_loop c learners rows
      else
        let total = compute_total (eng_literal s) (eng_inferential s) (eng_critical s);
            sp = starting_point_for (grade c) total
        in if sp \<noteq> ''DISCONTINUE''
           then export_gst_en_loop c learners
                  (rows @ [\<lparr>row_name = name s, row_gender = gender s, score = total, start = sp\<rparr>])
           else export_gst_en_loop c learners rows)"

definition export_gst_en_rows :: "unicode \<Rightarrow> Class \<Rightarrow> Learner list \<Rightarrow> row list" where
  "export_gst_en_rows u c learners = sort_rows u (export_gst_en_loop c learners [])"

definition build_gst_docx_rows :: "unicode \<Rightarrow> row list \<Rightarrow> row list" where
  "build_gst_docx_rows u rows = sort_rows u rows"

section \<open>The document\<close>

text \<open>
  The part of a word-processing document that \<^verbatim>\<open>app.py\<close> reads and writes through the
  document library: a document is the list of its tables in document order; a table has a
  declared number of grid columns and rows of cells; a cell holds paragraphs and cell
  properties (borders, width) that no write touches; a paragraph holds runs, an alignment
  and its spacing; a run holds text and character formatting. A formatting value that is not
  set is None. Merged cells are not modelled.
\<close>

datatype py_error = IndexError

datatype alignment = LEFT | CENTER | RIGHT | JUSTIFY

record run =
  run_text :: pystr
  bold :: "bool option"
  underline :: "bool option"
  color :: "string option"

record para =
  runs :: "run list"
  alignment :: "alignment option"
  space_before :: "int option"
  space_after :: "int option"
  line_spacing :: "int option"

record cell =
  paragraphs :: "para list"
  cell_properties :: string

record table =
  tbl_rows :: "cell list list"
  tbl_columns :: nat

type_synonym document = "table list"

definition paragraph_text :: "para \<Rightarrow> pystr" where
  "paragraph_text p = concat (map run_text (runs p))"

text \<open>\<^verbatim>\<open>cell.text\<close>: the texts of the paragraphs, joined by newlines.\<close>

definition cell_text :: "cell \<Rightarrow> pystr" where
  "cell_text c = join [10] (map paragraph_text (paragraphs c))"

text \<open>
  \<^verbatim>\<open>tbl.cell(r, c)\<close>. The library keeps the cells of a table as one list, row after row,
  and returns the entry at position \<^verbatim>\<open>c + r * len(tbl.columns)\<close> of it; a position past
  the end of the list raises \<^verbatim>\<open>IndexError\<close>. In a table whose rows all have as many
  cells as the table has grid columns this is the cell of row \<^verbatim>\<open>r\<close> and column \<^verbatim>\<open>c\<close>.
  The cells of one row, \<^verbatim>\<open>tbl.rows[k].cells\<close>, are the cells of that row.
\<close>

definition table_cells :: "table \<Rightarrow> cell list" where
  "table_cells tbl = concat (tbl_rows tbl)"

definition table_cell :: "table \<Rightarrow> nat \<Rightarrow> nat \<Rightarrow> py_error + cell" where
  "table_cell tbl r c =
     (let cell_idx = c + r * tbl_columns tbl in
      if cell_idx < length (table_cells tbl) then Inr (table_cells tbl ! cell_idx)
      else Inl IndexError)"

text \<open>
  A table is rectangular when every row has as many cells as the table has grid columns.
\<close>

definition rectangular :: "table \<Rightarrow> bool" where
  "rectangular tbl = (\<forall>cells \<in> set (tbl_rows tbl). length cells = tbl_columns tbl)"

text \<open>
  \<^verbatim>\<open>tbl.add_row()\<close> appends a row with one new cell for each grid column; a new cell
  holds one empty paragraph.
\<close>

definition empty_paragraph :: para where
  "empty_paragraph = \<lparr>runs = [], alignment = None, space_before = None, space_after = None,
     line_spacing = None\<rparr>"

definition new_cell :: cell where
  "new_cell = \<lparr>paragraphs = [empty_paragraph], cell_properties = []\<rparr>"

definition add_row :: "table \<Rightarrow> table" where
  "add_row tbl = tbl\<lparr>tbl_rows := tbl_rows tbl @ [replicate (tbl_columns tbl) new_cell]\<rparr>"

section \<open>Tight paragraph helpers\<close>

definition set_p_no_space :: "para \<Rightarrow> para" where
  "set_p_no_space p = p\<lparr>space_before := Some 0, space_after := Some 0, line_spacing := Some 1\<rparr>"

definition set_cell_paras_no_space :: "cell \<Rightarrow> cell" where
  "set_cell_paras_no_space c = c\<lparr>paragraphs := map set_p_no_space (paragraphs c)\<rparr>"

section \<open>Helpers that write into template tables\<close>

text \<open>
  \<^verbatim>\<open>_cell_set_text\<close>. The assignment \<^verbatim>\<open>cell.text = ""\<close> replaces the content of the cell
  by one paragraph that holds one run without text or formatting; the function then
  tightens that paragraph, aligns it when an alignment is given, and appends the run that
  carries the text: bold switched on or off, underline switched on when asked and left
  unset otherwise.
\<close>

definition blank_run :: run where
  "blank_run = \<lparr>run_text = [], bold = None, underline = None, color = None\<rparr>"

definition cell_set_text ::
  "unicode \<Rightarrow> cell \<Rightarrow> pystr option \<Rightarrow> bool \<Rightarrow> bool \<Rightarrow> alignment option \<Rightarrow> bool \<Rightarrow> cell" where
  "cell_set_text u c text_in bold_in underline_in align upper_in =
     (let p = set_p_no_space (empty_paragraph\<lparr>runs := [blank_run]\<rparr>);
          p = (case align of None \<Rightarrow> p | Some a \<Rightarrow> p\<lparr>alignment := Some a\<rparr>);
          run_text0 = or_empty text_in;
          run_text1 = (if upper_in then upper u run_text0 else run_text0);
          r = \<lparr>run_text = run_text1, bold = Some bold_in,
               underline = (if underline_in then Some True else None), color = None\<rparr>
      in c\<lparr>paragraphs := [p\<lparr>runs := runs p @ [r]\<rparr>]\<rparr>)"

definition norm :: "unicode \<Rightarrow> pystr option \<Rightarrow> pystr" where
  "norm u s = lower u (strip (or_empty s))"

text \<open>
  The two shape tests. Each is a \<^verbatim>\<open>try\<close> block and its handler: the block is a function
  that returns what the block returns (for the first test None when it ends without a
  \<^verbatim>\<open>return\<close>) or the exception it raises, and the test maps every exception to False.
\<close>

definition looks_like_meta_table_try :: "unicode \<Rightarrow> table \<Rightarrow> py_error + bool option" where
  "looks_like_meta_table_try u tbl =
     (if length (tbl_rows tbl) \<ge> 3 \<and> tbl_columns tbl \<ge> 4 then
        (case table_cell tbl 0 0 of
           Inl e \<Rightarrow> Inl e
         | Inr c00 \<Rightarrow>
            (case table_cell tbl 0 2 of
               Inl e \<Rightarrow> Inl e
             | Inr c02 \<Rightarrow>
                (let a = norm u (Some (cell_text c00));
                     b = norm u (Some (cell_text c02))
                 in Inr (Some ((startswith a (text_of ''teacher'') \<and>
                                startswith b (text_of ''grade'')) \<or>
                               (startswith a (text_of ''guro'') \<and>
                                startswith b (text_of ''antas'')))))))
      else Inr None)"

definition looks_like_meta_table :: "unicode \<Rightarrow> table \<Rightarrow> bool" where
  "looks_like_meta_table u tbl =
     (case looks_like_meta_table_try u tbl of
        Inl e \<Rightarrow> False
      | Inr None \<Rightarrow> False
      | Inr (Some b) \<Rightarrow> b)"

definition looks_like_results_table_try :: "unicode \<Rightarrow> table \<Rightarrow> py_error + bool" where
  "looks_like_results_table_try u tbl =
     (case tbl_rows tbl of
        [] \<Rightarrow> Inl IndexError
      | cells # _ \<Rightarrow>
         (let hdr = join (text_of '' '')
                      (map (\<lambda>c. upper u (strip (or_empty (Some (cell_text c))))) cells);
              has_name = (contains (text_of ''NAME'') hdr \<or> contains (text_of ''PANGALAN'') hdr);
              has_gender = (contains (text_of ''GENDER'') hdr \<or>
                            contains (text_of ''KASARIAN'') hdr);
              has_score = (contains (text_of ''SCORE'') hdr \<or> contains (text_of ''MARKA'') hdr)
          in Inr (has_name \<and> has_gender \<and> has_score)))"

definition looks_like_results_table :: "unicode \<Rightarrow> table \<Rightarrow> bool" where
  "looks_like_results_table u tbl =
     (case looks_like_results_table_try u tbl of Inl e \<Rightarrow> False | Inr b \<Rightarrow> b)"

section \<open>Locating the two tables\<close>

text \<open>
  The loop at the head of \<^verbatim>\<open>_fill_template_tables\<close>. A table is named by its position in
  \<^verbatim>\<open>doc.tables\<close>; \<^verbatim>\<open>i\<close> is the position of the table the loop looks at. The loop
  returns the two choices and, as a third value that the program does not compute, the
  number of tables it has looked at when it ends, which shows where the \<^verbatim>\<open>break\<close> fell.
\<close>

fun locate_loop ::
  "unicode \<Rightarrow> table list \<Rightarrow> nat \<Rightarrow> nat option \<Rightarrow> nat option \<Rightarrow> nat option \<times> nat option \<times> nat" where
  "locate_loop u [] i meta_tbl results_tbl = (meta_tbl, results_tbl, i)"
| "locate_loop u (t # ts) i meta_tbl results_tbl =
     (let (meta_tbl', results_tbl') =
            (if meta_tbl = None \<and> looks_like_meta_table u t then (Some i, results_tbl)
             else if results_tbl = None \<and> looks_like_results_table u t then (meta_tbl, Some i)
             else (meta_tbl, results_tbl))
      in if meta_tbl' \<noteq> None \<and> results_tbl' \<noteq> None then (meta_tbl', results_tbl', Suc i)
         else locate_loop u ts (Suc i) meta_tbl' results_tbl')"

definition locate :: "unicode \<Rightarrow> document \<Rightarrow> nat option \<times> nat option \<times> nat" where
  "locate u doc = locate_loop u doc 0 None None"

text \<open>
  The first position, counted from \<^verbatim>\<open>i\<close>, whose entry satisfies a test that may look at
  the position; it is what the proofs about the loop compare the loop with.
\<close>

fun first_index_at :: "(nat \<Rightarrow> 'a \<Rightarrow> bool) \<Rightarrow> nat \<Rightarrow> 'a list \<Rightarrow> nat option" where
  "first_index_at P i [] = None"
| "first_index_at P i (x # xs) = (if P i x then Some i else first_index_at P (Suc i) xs)"

section \<open>Populating the template\<close>

text \<open>
  A statement \<^verbatim>\<open>_cell_set_text(tbl.cell(r, c), ...)\<close> reads the cell, which raises when
  the list of cells is too short, and changes that cell in place: the cell at position
  \<^verbatim>\<open>i\<close> of the list of all cells is found in the row that holds it. Likewise
  \<^verbatim>\<open>cells[j]\<close> in a row.
\<close>

fun update_cells :: "cell list list \<Rightarrow> nat \<Rightarrow> (cell \<Rightarrow> cell) \<Rightarrow> cell list list" where
  "update_cells [] i f = []"
| "update_cells (cells # rest) i f =
     (if i < length cells then cells[i := f (cells ! i)] # rest
      else cells # update_cells rest (i - length cells) f)"

definition write_cell :: "table \<Rightarrow> nat \<Rightarrow> nat \<Rightarrow> (cell \<Rightarrow> cell) \<Rightarrow> py_error + table" where
  "write_cell tbl r c f =
     (case table_cell tbl r c of
        Inl e \<Rightarrow> Inl e
      | Inr x \<Rightarrow> Inr (tbl\<lparr>tbl_rows := update_cells (tbl_rows tbl) (c + r * tbl_columns tbl) f\<rparr>))"

definition write_row_cell :: "cell list \<Rightarrow> nat \<Rightarrow> (cell \<Rightarrow> cell) \<Rightarrow> py_error + cell list" where
  "write_row_cell cells j f =
     (if j < length cells then Inr (cells[j := f (cells ! j)]) else Inl IndexError)"

text \<open>
  The meta values: six writes in the order of the source, each underlined, not bold, not
  aligned and upper-cased, the first exception ending the run; then every paragraph of every
  cell of the table is tightened. The dict \<^verbatim>\<open>cls_dict\<close> carries the fields of the class
  record under the same names.
\<close>

fun write_values ::
  "unicode \<Rightarrow> table \<Rightarrow> (nat \<times> nat \<times> pystr option) list \<Rightarrow> py_error + table" where
  "write_values u tbl [] = Inr tbl"
| "write_values u tbl ((r, c, v) # ws) =
     (case write_cell tbl r c (\<lambda>x. cell_set_text u x v False True None True) of
        Inl e \<Rightarrow> Inl e
      | Inr tbl' \<Rightarrow> write_values u tbl' ws)"

definition fill_meta :: "unicode \<Rightarrow> table \<Rightarrow> Class \<Rightarrow> pystr \<Rightarrow> py_error + table" where
  "fill_meta u meta_tbl cls_dict type_of_test_text =
     (case write_values u meta_tbl
             [(0, 1, teacher cls_dict),
              (0, 3, Some (text_of (str_int (grade cls_dict)))),
              (1, 1, school cls_dict),
              (1, 3, section_name cls_dict),
              (2, 1, Some type_of_test_text),
              (2, 3, date_text cls_dict)] of
        Inl e \<Rightarrow> Inl e
      | Inr tbl \<Rightarrow> Inr (tbl\<lparr>tbl_rows := map (map set_cell_paras_no_space) (tbl_rows tbl)\<rparr>))"

text \<open>
  The results table: rows are added while the table has fewer than one header row and
  \<^verbatim>\<open>max(1, len(rows))\<close> data rows; record number \<^verbatim>\<open>i\<close> (from 1) goes to row \<^verbatim>\<open>i\<close>; the rows
  after the last record are blanked; the paragraphs of the header row are tightened.
\<close>

function add_rows_until :: "table \<Rightarrow> nat \<Rightarrow> table" where
  "add_rows_until tbl needed =
     (if length (tbl_rows tbl) < needed then add_rows_until (add_row tbl) needed else tbl)"
  by pat_completeness auto
termination
  by (relation "measure (\<lambda>(tbl, needed). needed - length (tbl_rows tbl))")
     (auto simp add: add_row_def)

definition fill_record :: "unicode \<Rightarrow> cell list \<Rightarrow> nat \<Rightarrow> row \<Rightarrow> py_error + cell list" where
  "fill_record u cells i rec =
     (case write_row_cell cells 0
             (\<lambda>x. cell_set_text u x (Some (text_of (str_int (int i)))) False False
                    (Some CENTER) False) of
        Inl e \<Rightarrow> Inl e
      | Inr cells0 \<Rightarrow>
     (case write_row_cell cells0 1
             (\<lambda>x. cell_set_text u x (row_name rec) False False None True) of
        Inl e \<Rightarrow> Inl e
      | Inr cells1 \<Rightarrow>
     (case write_row_cell cells1 2
             (\<lambda>x. cell_set_text u x (row_gender rec) False False (Some CENTER) True) of
        Inl e \<Rightarrow> Inl e
      | Inr cells2 \<Rightarrow>
     (case write_row_cell cells2 3
             (\<lambda>x. cell_set_text u x (Some (text_of (str_int (score rec)))) False False
                    (Some CENTER) False) of
        Inl e \<Rightarrow> Inl e
      | Inr cells3 \<Rightarrow>
     (case write_row_cell cells3 4
             (\<lambda>x. cell_set_text u x (Some (text_of (start rec))) False False
                    (Some CENTER) True) of
        Inl e \<Rightarrow> Inl e
      | Inr cells4 \<Rightarrow> Inr (map set_cell_paras_no_space cells4))))))"

fun fill_records :: "unicode \<Rightarrow> table \<Rightarrow> nat \<Rightarrow> row list \<Rightarrow> py_error + table" where
  "fill_records u tbl i [] = Inr tbl"
| "fill_records u tbl i (rec # recs) =
     (let k = 1 + (i - 1) in
      if k < length (tbl_rows tbl) then
        (case fill_record u (tbl_rows tbl ! k) i rec of
           Inl e \<Rightarrow> Inl e
         | Inr cells \<Rightarrow>
            fill_records u (tbl\<lparr>tbl_rows := (tbl_rows tbl)[k := cells]\<rparr>) (Suc i) recs)
      else Inl IndexError)"

definition fill_results :: "unicode \<Rightarrow> table \<Rightarrow> row list \<Rightarrow> py_error + table" where
  "fill_results u results_tbl rows_in =
     (let start_row_index = 1;
          needed = start_row_index + max 1 (length rows_in);
          tbl1 = add_rows_until results_tbl needed
      in case fill_records u tbl1 1 rows_in of
           Inl e \<Rightarrow> Inl e
         | Inr tbl2 \<Rightarrow>
            (let n = start_row_index + length rows_in;
                 tbl3 = tbl2\<lparr>tbl_rows := take n (tbl_rows tbl2) @
                          map (map (\<lambda>x. cell_set_text u x (Some []) False False None False))
                            (drop n (tbl_rows tbl2))\<rparr>
             in case tbl_rows tbl3 of
                  [] \<Rightarrow> Inl IndexError
                | hdr # rest \<Rightarrow> Inr (tbl3\<lparr>tbl_rows := map set_cell_paras_no_space hdr # rest\<rparr>)))"

text \<open>
  \<^verbatim>\<open>_fill_template_tables\<close>: the document after the writes together with the Boolean it
  returns, or the exception that leaves it. The two tables are two entries of the document,
  written one after the other.
\<close>

definition fill_template_tables ::
  "unicode \<Rightarrow> document \<Rightarrow> Class \<Rightarrow> row list \<Rightarrow> pystr \<Rightarrow> py_error + (document \<times> bool)" where
  "fill_template_tables u doc cls_dict rows_in type_of_test_text =
     (case locate u doc of
        (Some m, Some r, scanned) \<Rightarrow>
          (case fill_meta u (doc ! m) cls_dict type_of_test_text of
             Inl e \<Rightarrow> Inl e
           | Inr meta_tbl \<Rightarrow>
              (let doc1 = doc[m := meta_tbl] in
               case fill_results u (doc1 ! r) rows_in of
                 Inl e \<Rightarrow> Inl e
               | Inr results_tbl \<Rightarrow> Inr (doc1[r := results_tbl], True)))
      | (meta_tbl, results_tbl, scanned) \<Rightarrow> Inr (doc, False))"

section \<open>Sample data\<close>

text \<open>
  The entries of the case tables that the examples below use: the letters of Latin-1 and
  the Latin ligatures, every other code point being its own mapping.
\<close>

definition sample_unicode :: unicode where
  "sample_unicode = \<lparr>
     upper_beyond = (\<lambda>c.
       if 0xE0 \<le> c \<and> c \<le> 0xFE \<and> c \<noteq> 0xF7 then [c - 32]
       else if c = 0xDF then [0x53, 0x53]
       else if c = 0xFF then [0x178]
       else if c = 0xB5 then [0x39C]
       else if c = 0xFB00 then [0x46, 0x46]
       else if c = 0xFB01 then [0x46, 0x49]
       else if c = 0xFB02 then [0x46, 0x4C]
       else if c = 0xFB03 then [0x46, 0x46, 0x49]
       else if c = 0xFB04 then [0x46, 0x46, 0x4C]
       else if c = 0xFB05 \<or> c = 0xFB06 then [0x53, 0x54]
       else [c]),
     lower_beyond = (\<lambda>s i.
       if 0xC0 \<le> s ! i \<and> s ! i \<le> 0xDE \<and> s ! i \<noteq> 0xD7 then [s ! i + 32] else [s ! i])\<rparr>"

definition sample_class :: Class where
  "sample_class = \<lparr>teacher = Some (text_of ''T''), school = None, grade = 7,
     section_name = None, date_text = None\<rparr>"

definition sample_learner :: "string \<Rightarrow> string \<Rightarrow> bool \<Rightarrow> int \<Rightarrow> int \<Rightarrow> int \<Rightarrow> Learner" where
  "sample_learner n g t a b c = \<lparr>name = Some (text_of n), gender = Some (text_of g),
     took_eng = Some t, took_fil = None,
     eng_literal = Some a, eng_inferential = Some b, eng_critical = Some c,
     fil_literal = None, fil_inferential = None, fil_critical = None\<rparr>"

definition sample_row :: "string \<Rightarrow> string \<Rightarrow> int \<Rightarrow> string \<Rightarrow> row" where
  "sample_row n g sc st = \<lparr>row_name = Some (text_of n), row_gender = Some (text_of g),
     score = sc, start = st\<rparr>"

definition text_para :: "string \<Rightarrow> para" where
  "text_para s = \<lparr>runs = [\<lparr>run_text = text_of s, bold = Some True, underline = None,
       color = Some ''FF0000''\<rparr>],
     alignment = None, space_before = None, space_after = Some 12, line_spacing = None\<rparr>"

definition text_cell :: "string \<Rightarrow> cell" where
  "text_cell s = \<lparr>paragraphs = [text_para s], cell_properties = ''borders''\<rparr>"

definition sample_meta_table :: table where
  "sample_meta_table = \<lparr>tbl_rows =
     [[text_cell ''Teacher:'', text_cell ''x'', text_cell ''Grade:'', text_cell ''''],
      [text_cell ''School:'', text_cell '''', text_cell ''Section:'', text_cell ''''],
      [text_cell ''Type of Test:'', text_cell '''', text_cell ''Date:'', text_cell '''']],
     tbl_columns = 4\<rparr>"

definition sample_results_table :: table where
  "sample_results_table = \<lparr>tbl_rows =
     [[text_cell ''#'', text_cell ''Name'', text_cell ''Gender'', text_cell ''Score'',
       text_cell ''Start'']],
     tbl_columns = 5\<rparr>"

definition sample_both_table :: table where
  "sample_both_table = \<lparr>tbl_rows =
     [[text_cell ''Teacher Name'', text_cell '''', text_cell ''Grade Score'', text_cell ''Gender''],
      [text_cell '''', text_cell '''', text_cell '''', text_cell ''''],
      [text_cell '''', text_cell '''', text_cell '''', text_cell '''']],
     tbl_columns = 4\<rparr>"



text \<open>
  A table with five grid columns whose four rows have four cells each: the third of the six
  metadata writes, \<^verbatim>\<open>meta_tbl.cell(1, 1)\<close>, reaches the cell at position 6 of the list of
  all cells, which is the label \<^verbatim>\<open>Section:\<close> in row 1, column 2.
\<close>

definition narrow_rows_table :: table where
  "narrow_rows_table = \<lparr>tbl_rows =
     [[text_cell ''Teacher:'', text_cell [], text_cell ''Grade:'', text_cell []],
      [text_cell ''School:'', text_cell [], text_cell ''Section:'', text_cell []],
      [text_cell ''Type of Test:'', text_cell [], text_cell ''Date:'', text_cell []],
      [text_cell [], text_cell [], text_cell [], text_cell []]],
     tbl_columns = 5\<rparr>"

definition sample_doc :: document where
  "sample_doc = [sample_meta_table, sample_results_table]"

declare str_nat.simps [simp del]

declare add_rows_until.simps [simp del]

section \<open>Properties of the placement engine\<close>

lemma digit_val_digit_char: "d < 10 \<Longrightarrow> digit_val (digit_char d) = d"
proof -
  assume "d < 10"
  then have "d = 0 \<or> d = 1 \<or> d = 2 \<or> d = 3 \<or> d = 4 \<or> d = 5 \<or> d = 6 \<or> d = 7 \<or> d = 8 \<or> d = 9"
    by arith
  then show ?thesis
    by (elim disjE) (simp_all add: digit_val_def digit_char_def)
qed

lemma digits_value_snoc: "digits_value (s @ [c]) = 10 * digits_value s + digit_val c"
  by (simp add: digits_value_def)

lemma digits_value_str_nat: "digits_value (str_nat n) = n"
proof (induction n rule: str_nat.induct)
  case (1 n)
  show ?case
  proof (cases "n < 10")
    case True
    then show ?thesis
      using digit_val_digit_char [of n] by (simp add: str_nat.simps [of n] digits_value_def)
  next
    case False
    then have "digits_value (str_nat (n div 10)) = n div 10"
      using 1 by simp
    moreover have "digit_val (digit_char (n mod 10)) = n mod 10"
      by (rule digit_val_digit_char) simp
    ultimately show ?thesis
      using False by (simp add: str_nat.simps [of n] digits_value_snoc)
  qed
qed

lemma grade_number_Grade: "0 \<le> L \<Longrightarrow> grade_number (''Grade '' @ str_int L) = Some L"
  by (simp add: grade_number_def startswith_def str_int_def digits_value_str_nat)

lemma str_int_digit: "0 \<le> i \<Longrightarrow> i < 10 \<Longrightarrow> str_int i = [digit_char (nat i)]"
proof -
  assume "0 \<le> i" "i < 10"
  then have "nat i < 10" by linarith
  then show ?thesis
    using \<open>0 \<le> i\<close> by (simp add: str_int_def str_nat.simps [of "nat i"])
qed

lemma spf_low: "t < 28 \<Longrightarrow>
  starting_point_for g t = ''Grade '' @ str_int (max 1 (if 16 \<le> t then max 1 (g - 1) - 1 else max 1 (g - 1) - 2))"
  by (simp add: starting_point_for_def DISCONTINUE_THRESHOLD_def ONE_BELOW_THRESHOLD_def Let_def)

lemma grade_number_spf:
  assumes "t < 28"
  shows "grade_number (starting_point_for g t) =
      Some (max 1 (if 16 \<le> t then max 1 (g - 1) - 1 else max 1 (g - 1) - 2))"
proof -
  have "(0::int) \<le> max 1 (if 16 \<le> t then max 1 (g - 1) - 1 else max 1 (g - 1) - 2)"
    by simp
  then show ?thesis
    unfolding spf_low [OF assms] by (rule grade_number_Grade)
qed

lemma grade_number_DISCONTINUE: "grade_number ''DISCONTINUE'' = None"
  by (simp add: grade_number_def startswith_def)


lemma spf_disc: "(starting_point_for g t = ''DISCONTINUE'') = (28 \<le> t)"
  by (simp add: starting_point_for_def DISCONTINUE_THRESHOLD_def Let_def)

lemma str_int_1: "str_int 1 = ''1''"
  by (simp add: str_int_digit digit_char_def)

text \<open>
  Claim C1. \<^verbatim>\<open>starting_point_for\<close> returns \<^verbatim>\<open>"DISCONTINUE"\<close> exactly for a total of 28 or
  more. Below that it returns \<^verbatim>\<open>"Grade L"\<close>, where with \<^verbatim>\<open>base = max(1, grade - 1)\<close> the
  level is \<^verbatim>\<open>max(1, base - 1)\<close> for a total of 16 or more and \<^verbatim>\<open>max(1, base - 2)\<close> for a
  smaller one; so 27 and 16 are one below, 15 and 0 two below; the level read back from the
  string is at least 1, and it is \<^verbatim>\<open>"Grade 1"\<close> for the grades up to 2.
\<close>

theorem starting_point_for_tiers:
  "(starting_point_for g t = ''DISCONTINUE'' \<longleftrightarrow> t \<ge> 28) \<and>
   (16 \<le> t \<and> t < 28 \<longrightarrow>
      starting_point_for g t = ''Grade '' @ str_int (max 1 (max 1 (g - 1) - 1))) \<and>
   (t < 16 \<longrightarrow>
      starting_point_for g t = ''Grade '' @ str_int (max 1 (max 1 (g - 1) - 2))) \<and>
   starting_point_for g 27 = ''Grade '' @ str_int (max 1 (max 1 (g - 1) - 1)) \<and>
   starting_point_for g 16 = ''Grade '' @ str_int (max 1 (max 1 (g - 1) - 1)) \<and>
   starting_point_for g 15 = ''Grade '' @ str_int (max 1 (max 1 (g - 1) - 2)) \<and>
   starting_point_for g 0 = ''Grade '' @ str_int (max 1 (max 1 (g - 1) - 2)) \<and>
   (t < 28 \<longrightarrow> (\<exists>L. 1 \<le> L \<and> grade_number (starting_point_for g t) = Some L)) \<and>
   (t < 28 \<and> g \<le> 2 \<longrightarrow> starting_point_for g t = ''Grade 1'')"
proof -
  have low: "grade_number (starting_point_for g t) =
      Some (max 1 (if 16 \<le> t then max 1 (g - 1) - 1 else max 1 (g - 1) - 2))" if "t < 28"
    using that by (rule grade_number_spf)
  have floor1: "starting_point_for g t = ''Grade 1''" if "t < 28" "g \<le> 2"
  proof -
    have "max 1 (if 16 \<le> t then max 1 (g - 1) - 1 else max 1 (g - 1) - 2) = (1::int)"
      using that by auto
    then show ?thesis
      using that by (simp only: spf_low str_int_1) simp
  qed
  show ?thesis
    using low floor1 by (simp add: spf_disc spf_low)
qed

theorem starting_point_for_tiers_witness:
  "starting_point_for 7 29 = ''DISCONTINUE'' \<and> starting_point_for 7 20 = ''Grade 5'' \<and>
   starting_point_for 7 5 = ''Grade 4'' \<and> starting_point_for 2 5 = ''Grade 1'' \<and>
   grade_number (starting_point_for 7 20) = Some 5"
  using starting_point_for_tiers [of 7 29] starting_point_for_tiers [of 7 20]
    starting_point_for_tiers [of 7 5] starting_point_for_tiers [of 2 5]
  by (simp add: str_int_digit digit_char_def grade_number_def startswith_def digits_value_def digit_val_def)

text \<open>
  Claim C2 says that for a fixed grade between 1 and 12 the grade number of the result never
  grows with the total. Grade 7 refutes it: the total 5 starts at Grade 4 and the higher total
  20 at Grade 5.
\<close>

theorem starting_point_for_not_decreasing_in_total:
  "(1::int) \<le> 7 \<and> (7::int) \<le> 12 \<and> (5::int) \<le> 20 \<and> (20::int) < DISCONTINUE_THRESHOLD \<and>
   grade_number (starting_point_for 7 5) = Some 4 \<and>
   grade_number (starting_point_for 7 20) = Some 5 \<and>
   \<not> the (grade_number (starting_point_for 7 20)) \<le> the (grade_number (starting_point_for 7 5))"
  by (simp add: grade_number_spf DISCONTINUE_THRESHOLD_def)

text \<open>
  Claim C2, amended. For a fixed grade between 1 and 12 and totals below the discontinue
  threshold, the grade number of the result is non-decreasing in the total: a higher total
  never yields a smaller grade number.
\<close>

theorem starting_point_for_mono_total:
  assumes "1 \<le> g" "g \<le> 12" "t1 \<le> t2" "t2 < DISCONTINUE_THRESHOLD"
  shows "\<exists>L1 L2. grade_number (starting_point_for g t1) = Some L1 \<and>
                 grade_number (starting_point_for g t2) = Some L2 \<and> L1 \<le> L2"
proof -
  have t: "t1 < 28" "t2 < 28"
    using assms by (simp_all add: DISCONTINUE_THRESHOLD_def)
  let ?L = "\<lambda>t::int. max 1 (if 16 \<le> t then max 1 (g - 1) - 1 else max 1 (g - 1) - 2)"
  have "grade_number (starting_point_for g t1) = Some (?L t1)"
    using t(1) by (rule grade_number_spf)
  moreover have "grade_number (starting_point_for g t2) = Some (?L t2)"
    using t(2) by (rule grade_number_spf)
  moreover have "?L t1 \<le> ?L t2"
    using assms(3) by auto
  ultimately show ?thesis by blast
qed

theorem starting_point_for_mono_total_witness:
  "(1::int) \<le> 7 \<and> (7::int) \<le> 12 \<and> (5::int) \<le> 20 \<and> (20::int) < DISCONTINUE_THRESHOLD \<and>
   (\<exists>L1 L2. grade_number (starting_point_for 7 5) = Some L1 \<and>
                 grade_number (starting_point_for 7 20) = Some L2 \<and> L1 \<le> L2)"
proof -
  have h: "(1::int) \<le> 7" "(7::int) \<le> 12" "(5::int) \<le> 20" "(20::int) < DISCONTINUE_THRESHOLD"
    by (simp_all add: DISCONTINUE_THRESHOLD_def)
  show ?thesis
    using h starting_point_for_mono_total [OF h] by simp
qed

text \<open>
  Claim C7 says that the total is never negative. A stored sub-score of -1 with the two
  others missing gives the total -1.
\<close>

theorem compute_total_negative:
  "compute_total (Some (- 1)) None None = - 1 \<and> \<not> 0 \<le> compute_total (Some (- 1)) None None"
  by (simp add: compute_total_def int_or_zero_def)

text \<open>
  Claim C7, amended. \<^verbatim>\<open>compute_total\<close> is defined for every combination of integers and
  None, reads None as 0 (the total of three None is 0) and adds the three values; the total
  is at least 0 whenever every sub-score that is present is at least 0.
\<close>

theorem compute_total_none_as_zero:
  "compute_total None None None = 0 \<and>
   compute_total None b c = compute_total (Some 0) b c \<and>
   compute_total a None c = compute_total a (Some 0) c \<and>
   compute_total a b None = compute_total a b (Some 0) \<and>
   compute_total (Some x) (Some y) (Some z) = x + y + z \<and>
   ((\<forall>n \<in> set_option a \<union> set_option b \<union> set_option c. 0 \<le> n) \<longrightarrow> 0 \<le> compute_total a b c)"
  by (auto simp add: compute_total_def int_or_zero_def split: option.splits)

theorem compute_total_none_as_zero_witness:
  "compute_total (Some 10) None (Some 9) = 19 \<and> 0 \<le> compute_total (Some 10) None (Some 9)"
  using compute_total_none_as_zero [where a = "Some 10" and b = None and c = "Some 9"]
  by (simp add: compute_total_def int_or_zero_def)

section \<open>Properties of the gender bucket\<close>

lemma text_of_M: "text_of ''M'' = [77]"
  by (simp add: text_of_def)

lemma text_of_F: "text_of ''F'' = [70]"
  by (simp add: text_of_def)

lemma upper_Cons: "upper u (c # s) = upper_code u c @ upper u s"
  by (simp add: upper_def)

lemma upper_code_ascii:
  "c < 128 \<Longrightarrow> upper_code u c = [if 97 \<le> c \<and> c \<le> 122 then c - 32 else c]"
  by (simp add: upper_code_def)

lemma upper_ascii:
  "\<forall>c \<in> set s. c < 128 \<Longrightarrow> upper u s = map (\<lambda>c. if 97 \<le> c \<and> c \<le> 122 then c - 32 else c) s"
  by (induction s) (simp_all add: upper_def upper_code_def)

lemma map_upt_nth: "map (\<lambda>i. g (s ! i)) [0..<length s] = map g s"
  by (rule nth_equalityI) simp_all

lemma lower_ascii:
  assumes "\<forall>c \<in> set s. c < 128"
  shows "lower u s = map (\<lambda>c. if 65 \<le> c \<and> c \<le> 90 then c + 32 else c) s"
proof -
  have "map (lower_code u s) [0..<length s] =
      map (\<lambda>i. (\<lambda>c. [if 65 \<le> c \<and> c \<le> 90 then c + 32 else c]) (s ! i)) [0..<length s]"
    using assms by (simp add: lower_code_def Let_def)
  also have "\<dots> = map (\<lambda>c. [if 65 \<le> c \<and> c \<le> 90 then c + 32 else c]) s"
    by (rule map_upt_nth)
  finally have "lower u s = concat (map (\<lambda>c. [if 65 \<le> c \<and> c \<le> 90 then c + 32 else c]) s)"
    by (simp only: lower_def)
  then show ?thesis
    by (simp add: concat_map_singleton)
qed

lemma dropWhile_all: "list_all P xs \<Longrightarrow> dropWhile P (xs @ ys) = dropWhile P ys"
  by (induction xs) simp_all

lemma strip_pad_left: "list_all is_space ws \<Longrightarrow> strip (ws @ s) = strip s"
  by (simp add: strip_def dropWhile_all)

lemma strip_pad_right:
  assumes "list_all is_space ws"
  shows "strip (s @ ws) = strip s"
proof (cases "list_all is_space s")
  case True
  have "dropWhile is_space (s @ ws) = []"
    using True assms by (simp add: dropWhile_eq_Nil_conv list_all_iff)
  moreover have "dropWhile is_space s = []"
    using True by (simp add: dropWhile_eq_Nil_conv list_all_iff)
  ultimately show ?thesis by (simp only: strip_def)
next
  case False
  then obtain x where "x \<in> set s" "\<not> is_space x"
    by (auto simp: list_all_iff)
  then have "dropWhile is_space (s @ ws) = dropWhile is_space s @ ws"
    by (rule dropWhile_append1)
  moreover have "list_all is_space (rev ws)"
    using assms by (simp add: list_all_iff)
  ultimately show ?thesis
    by (simp add: strip_def dropWhile_all)
qed

lemma strip_pad:
  "list_all is_space ws1 \<Longrightarrow> list_all is_space ws2 \<Longrightarrow> strip (ws1 @ s @ ws2) = strip s"
  by (simp add: strip_pad_left strip_pad_right)

lemma set_strip: "set (strip s) \<subseteq> set s"
proof -
  have "set (strip s) = set (dropWhile is_space (rev (dropWhile is_space s)))"
    by (simp add: strip_def)
  also have "\<dots> \<subseteq> set (rev (dropWhile is_space s))"
    by (rule set_dropWhileD [THEN subsetI]) 
  also have "\<dots> \<subseteq> set s"
    using set_dropWhileD [of _ is_space s] by auto
  finally show ?thesis .
qed

lemma is_space_ascii_upper:
  "is_space (if 97 \<le> c \<and> c \<le> 122 then c - 32 else c) = is_space c"
  by (auto simp add: is_space_def)

lemma is_space_ascii_lower:
  "is_space (if 65 \<le> c \<and> c \<le> 90 then c + 32 else c) = is_space c"
  by (auto simp add: is_space_def)

lemma dropWhile_space_map:
  "(\<And>c. is_space (f c) = is_space c) \<Longrightarrow>
   dropWhile is_space (map f xs) = map f (dropWhile is_space xs)"
  by (induction xs) simp_all

lemma strip_map:
  "(\<And>c. is_space (f c) = is_space c) \<Longrightarrow> strip (map f s) = map f (strip s)"
  by (simp add: strip_def dropWhile_space_map rev_map)

lemma gender_bucket_first_ascii:
  assumes "strip s = c # rest" "c < 128"
  shows "gender_bucket u (Some s) =
     (if c \<in> set (text_of ''Mm'') then 0 else if c \<in> set (text_of ''Ff'') then 1 else 2)"
  using assms
  by (auto simp add: gender_bucket_def or_empty_def Let_def upper_Cons upper_code_ascii
      text_of_def startswith_def)

lemma ascii_upper_twice:
  "map (\<lambda>c::nat. if 97 \<le> c \<and> c \<le> 122 then c - 32 else c)
     (map (\<lambda>c. if 97 \<le> c \<and> c \<le> 122 then c - 32 else c) xs) =
   map (\<lambda>c. if 97 \<le> c \<and> c \<le> 122 then c - 32 else c) xs"
  by (induction xs) auto

lemma ascii_upper_lower:
  "map (\<lambda>c::nat. if 97 \<le> c \<and> c \<le> 122 then c - 32 else c)
     (map (\<lambda>c. if 65 \<le> c \<and> c \<le> 90 then c + 32 else c) xs) =
   map (\<lambda>c. if 97 \<le> c \<and> c \<le> 122 then c - 32 else c) xs"
  by (induction xs) auto

lemma upper_strip_upper_ascii:
  assumes "\<forall>c \<in> set s. c < 128"
  shows "upper u (strip (upper u s)) = upper u (strip s)"
proof -
  let ?f = "\<lambda>c::nat. if 97 \<le> c \<and> c \<le> 122 then c - 32 else c"
  have a: "\<forall>c \<in> set (strip s). c < 128"
    using assms set_strip [of s] by auto
  have 1: "strip (upper u s) = map ?f (strip s)"
    using assms by (simp add: upper_ascii strip_map is_space_ascii_upper)
  have "\<forall>c \<in> set (map ?f (strip s)). c < 128"
    using a by auto
  then have 2: "upper u (map ?f (strip s)) = map ?f (map ?f (strip s))"
    by (rule upper_ascii)
  have 3: "upper u (strip s) = map ?f (strip s)"
    using a by (rule upper_ascii)
  show ?thesis
    by (simp only: 1 2 3 ascii_upper_twice)
qed

lemma upper_strip_lower_ascii:
  assumes "\<forall>c \<in> set s. c < 128"
  shows "upper u (strip (lower u s)) = upper u (strip s)"
proof -
  let ?f = "\<lambda>c::nat. if 97 \<le> c \<and> c \<le> 122 then c - 32 else c"
  let ?g = "\<lambda>c::nat. if 65 \<le> c \<and> c \<le> 90 then c + 32 else c"
  have a: "\<forall>c \<in> set (strip s). c < 128"
    using assms set_strip [of s] by auto
  have 1: "strip (lower u s) = map ?g (strip s)"
    using assms by (simp add: lower_ascii strip_map is_space_ascii_lower)
  have "\<forall>c \<in> set (map ?g (strip s)). c < 128"
    using a by auto
  then have 2: "upper u (map ?g (strip s)) = map ?f (map ?g (strip s))"
    by (rule upper_ascii)
  have 3: "upper u (strip s) = map ?f (strip s)"
    using a by (rule upper_ascii)
  show ?thesis
    by (simp only: 1 2 3 ascii_upper_lower)
qed

lemma gender_bucket_upper_ascii:
  "\<forall>c \<in> set s. c < 128 \<Longrightarrow>
   gender_bucket u (Some (upper u s)) = gender_bucket u (Some s)"
  by (simp add: gender_bucket_def or_empty_def upper_strip_upper_ascii)

lemma gender_bucket_lower_ascii:
  "\<forall>c \<in> set s. c < 128 \<Longrightarrow>
   gender_bucket u (Some (lower u s)) = gender_bucket u (Some s)"
  by (simp add: gender_bucket_def or_empty_def upper_strip_lower_ascii)

text \<open>
  Claim C10 says that the bucket is 1 only when the stripped input starts with F or f. The
  one-character input U+FB01, the ligature of f and i, starts with neither; its upper-casing
  is \<^verbatim>\<open>FI\<close>, and its bucket is 1.
\<close>

theorem gender_bucket_ligature:
  "gender_bucket sample_unicode (Some [0xFB01]) = 1 \<and>
   strip [0xFB01] = [0xFB01] \<and>
   0xFB01 \<notin> set (text_of ''Ff'') \<and>
   upper sample_unicode [0xFB01] = text_of ''FI''"
  by (simp add: gender_bucket_def or_empty_def strip_def is_space_def upper_def upper_code_def
      sample_unicode_def text_of_def startswith_def)

text \<open>
  Claim C10, amended. \<^verbatim>\<open>_gender_bucket\<close> has a value for every input, one of 0, 1 and 2:
  2 for None and for the empty string, 0 exactly when the stripped and upper-cased input
  starts with M, and 1 exactly when it starts with F. When the first character of the
  stripped input is an ASCII character the bucket is 0 for M or m, 1 for F or f and 2 for
  anything else. White space around the input does not change the bucket, nor does the case
  of the letters of an ASCII input.
\<close>

theorem gender_bucket_total:
  "gender_bucket u None = 2 \<and> gender_bucket u (Some []) = 2 \<and>
   gender_bucket u g \<le> 2 \<and>
   (gender_bucket u g = 0 \<longleftrightarrow> startswith (upper u (strip (or_empty g))) (text_of ''M'')) \<and>
   (gender_bucket u g = 1 \<longleftrightarrow>
      \<not> startswith (upper u (strip (or_empty g))) (text_of ''M'') \<and>
      startswith (upper u (strip (or_empty g))) (text_of ''F'')) \<and>
   (strip s = c # rest \<and> c < 128 \<longrightarrow>
      gender_bucket u (Some s) =
        (if c \<in> set (text_of ''Mm'') then 0 else if c \<in> set (text_of ''Ff'') then 1 else 2)) \<and>
   (list_all is_space wl \<and> list_all is_space wr \<longrightarrow>
      gender_bucket u (Some (wl @ s @ wr)) = gender_bucket u (Some s)) \<and>
   ((\<forall>c \<in> set s. c < 128) \<longrightarrow>
      gender_bucket u (Some (upper u s)) = gender_bucket u (Some s) \<and>
      gender_bucket u (Some (lower u s)) = gender_bucket u (Some s))"
proof -
  have none: "gender_bucket u None = 2" "gender_bucket u (Some []) = 2"
    by (simp_all add: gender_bucket_def or_empty_def strip_def upper_def startswith_def text_of_def)
  have range: "gender_bucket u g \<le> 2"
    by (simp add: gender_bucket_def Let_def)
  have zero: "gender_bucket u g = 0 \<longleftrightarrow> startswith (upper u (strip (or_empty g))) (text_of ''M'')"
    by (simp add: gender_bucket_def Let_def)
  have one: "gender_bucket u g = 1 \<longleftrightarrow>
      \<not> startswith (upper u (strip (or_empty g))) (text_of ''M'') \<and>
      startswith (upper u (strip (or_empty g))) (text_of ''F'')"
    by (simp add: gender_bucket_def Let_def)
  have pad: "gender_bucket u (Some (wl @ s @ wr)) = gender_bucket u (Some s)"
    if "list_all is_space wl" "list_all is_space wr"
    using that by (simp add: gender_bucket_def or_empty_def strip_pad)
  show ?thesis
    using none range zero one pad gender_bucket_first_ascii [of s c rest u]
      gender_bucket_upper_ascii [of s u] gender_bucket_lower_ascii [of s u]
    by blast
qed

theorem gender_bucket_total_witness:
  "gender_bucket sample_unicode (Some (text_of ''  male '')) = 0 \<and>
   gender_bucket sample_unicode (Some (text_of ''f'')) = 1 \<and>
   gender_bucket sample_unicode (Some (text_of ''x'')) = 2 \<and>
   gender_bucket sample_unicode (Some (text_of '' '')) = 2 \<and>
   gender_bucket sample_unicode (Some [0xA0, 77]) = 0 \<and>
   gender_bucket sample_unicode (Some (upper sample_unicode (text_of ''male''))) = 0"
  using gender_bucket_total [where u = sample_unicode and s = "text_of ''  male ''" and c = 109
      and rest = "text_of ''ale''" and g = "Some (text_of ''x'')"]
    gender_bucket_total [where u = sample_unicode and s = "text_of ''f''" and c = 102 and rest = "[]"]
    gender_bucket_total [where u = sample_unicode and s = "text_of ''male''" and wl = "[0xA0]" and wr = "[]"
      and c = 109 and rest = "text_of ''ale''"]
  by (simp add: text_of_def strip_def is_space_def gender_bucket_def or_empty_def upper_def
      upper_code_def startswith_def)

section \<open>Properties of the roster ordering\<close>


lemma sort_rows_idem: "sort_rows u (sort_rows u rows) = sort_rows u rows"
  unfolding sort_rows_def by (rule sort_key_id_if_sorted) simp



lemmas key_evals = sort_key_of_def sample_row_def gender_bucket_def or_empty_def strip_def
  is_space_def upper_def upper_code_def text_of_def startswith_def




section \<open>Properties of the roster\<close>

lemma gst_en_loop_eq:
  "gst_en_loop c learners rows =
     rows @ map (\<lambda>s. \<lparr>row_name = name s, row_gender = gender s,
                      score = compute_total (eng_literal s) (eng_inferential s) (eng_critical s),
                      start = starting_point_for (grade c)
                        (compute_total (eng_literal s) (eng_inferential s) (eng_critical s))\<rparr>)
              (filter (\<lambda>s. truthy (took_eng s) \<and>
                 compute_total (eng_literal s) (eng_inferential s) (eng_critical s) < 28) learners)"
  by (induction learners arbitrary: rows) (simp_all add: Let_def spf_disc not_le)

lemma export_gst_en_loop_eq: "export_gst_en_loop c learners rows = gst_en_loop c learners rows"
  by (induction learners arbitrary: rows) (simp_all add: Let_def)

text \<open>
  Claim C9. The roster of the view and the roster of the export are the same list. It holds,
  once each, the row of every learner who took the test and whose total is below 28, with the
  total as score and the starting point as start; no row of it reads \<^verbatim>\<open>"DISCONTINUE"\<close>, and
  a learner whose starting point is \<^verbatim>\<open>"DISCONTINUE"\<close> has a total of 28 or more, which no row
  of the roster carries.
\<close>

theorem gst_en_roster:
  "mset (gst_en u c learners) =
     mset (map (\<lambda>s. \<lparr>row_name = name s, row_gender = gender s,
                      score = compute_total (eng_literal s) (eng_inferential s) (eng_critical s),
                      start = starting_point_for (grade c)
                        (compute_total (eng_literal s) (eng_inferential s) (eng_critical s))\<rparr>)
              (filter (\<lambda>s. truthy (took_eng s) \<and>
                 compute_total (eng_literal s) (eng_inferential s) (eng_critical s) < 28) learners)) \<and>
   export_gst_en_rows u c learners = gst_en u c learners \<and>
   build_gst_docx_rows u (export_gst_en_rows u c learners) = gst_en u c learners \<and>
   (\<forall>r \<in> set (gst_en u c learners). start r \<noteq> ''DISCONTINUE'' \<and> score r < 28) \<and>
   (\<forall>s \<in> set learners.
      truthy (took_eng s) \<and>
      starting_point_for (grade c)
        (compute_total (eng_literal s) (eng_inferential s) (eng_critical s)) = ''DISCONTINUE'' \<longrightarrow>
      28 \<le> compute_total (eng_literal s) (eng_inferential s) (eng_critical s) \<and>
      (\<forall>r \<in> set (gst_en u c learners).
         score r \<noteq> compute_total (eng_literal s) (eng_inferential s) (eng_critical s)))"
proof -
  let ?tot = "\<lambda>s. compute_total (eng_literal s) (eng_inferential s) (eng_critical s)"
  let ?row = "\<lambda>s. \<lparr>row_name = name s, row_gender = gender s, score = ?tot s,
                      start = starting_point_for (grade c) (?tot s)\<rparr>"
  let ?keep = "\<lambda>s. truthy (took_eng s) \<and> ?tot s < 28"
  have m: "mset (gst_en u c learners) = mset (map ?row (filter ?keep learners))"
    by (simp add: gst_en_def sort_rows_def gst_en_loop_eq)
  have e: "export_gst_en_rows u c learners = gst_en u c learners"
    by (simp add: export_gst_en_rows_def gst_en_def export_gst_en_loop_eq)
  have b: "build_gst_docx_rows u (export_gst_en_rows u c learners) = gst_en u c learners"
    by (simp add: e build_gst_docx_rows_def) (simp add: gst_en_def sort_rows_idem)
  have "set (gst_en u c learners) = ?row ` {s \<in> set learners. ?keep s}"
    by (simp add: gst_en_def sort_rows_def gst_en_loop_eq)
  then have r: "\<forall>r \<in> set (gst_en u c learners). start r \<noteq> ''DISCONTINUE'' \<and> score r < 28"
    by (auto simp add: spf_disc)
  have d: "28 \<le> ?tot s \<and> (\<forall>r \<in> set (gst_en u c learners). score r \<noteq> ?tot s)"
    if "starting_point_for (grade c) (?tot s) = ''DISCONTINUE''" for s
    using that r by (auto simp add: spf_disc)
  show ?thesis
    using m e b r d by blast
qed

theorem gst_en_roster_witness:
  "gst_en sample_unicode sample_class [sample_learner ''Ana'' ''F'' True 10 10 9, sample_learner ''Ben'' ''M'' True 10 5 5,
              sample_learner ''Cy'' ''M'' False 1 1 1, sample_learner ''Di'' ''F'' True 5 0 0] =
     [sample_row ''Ben'' ''M'' 20 ''Grade 5'',
      sample_row ''Di'' ''F'' 5 ''Grade 4''] \<and>
   export_gst_en_rows sample_unicode sample_class [sample_learner ''Ana'' ''F'' True 10 10 9, sample_learner ''Ben'' ''M'' True 10 5 5,
              sample_learner ''Cy'' ''M'' False 1 1 1, sample_learner ''Di'' ''F'' True 5 0 0] =
     [sample_row ''Ben'' ''M'' 20 ''Grade 5'',
      sample_row ''Di'' ''F'' 5 ''Grade 4''] \<and>
   starting_point_for (grade sample_class) (compute_total (Some 10) (Some 10) (Some 9)) = ''DISCONTINUE''"
  using gst_en_roster [of sample_unicode sample_class "[sample_learner ''Ana'' ''F'' True 10 10 9, sample_learner ''Ben'' ''M'' True 10 5 5,
              sample_learner ''Cy'' ''M'' False 1 1 1, sample_learner ''Di'' ''F'' True 5 0 0]"]
  by (simp add: gst_en_def sample_class_def sample_learner_def truthy_def compute_total_def
      int_or_zero_def spf_disc spf_low str_int_digit digit_char_def sort_rows_def key_evals)

section \<open>Properties of the shape tests\<close>

lemmas string_evals = norm_def lower_def lower_code_def upper_def upper_code_def strip_def
  is_space_def or_empty_def text_of_def startswith_def Let_def

lemma looks_like_meta_table_iff:
  "looks_like_meta_table u tbl = (looks_like_meta_table_try u tbl = Inr (Some True))"
  by (auto simp add: looks_like_meta_table_def split: sum.splits option.splits)





lemma looks_like_meta_table_shape:
  "looks_like_meta_table u tbl \<Longrightarrow> 3 \<le> length (tbl_rows tbl) \<and> 4 \<le> tbl_columns tbl"
  by (auto simp add: looks_like_meta_table_iff looks_like_meta_table_try_def split: if_splits)




section \<open>Properties of the locator\<close>

lemma first_index_at_bounds:
  "first_index_at P i xs = Some k \<Longrightarrow> i \<le> k \<and> k < i + length xs"
proof (induction xs arbitrary: i)
  case Nil
  then show ?case by simp
next
  case (Cons x xs)
  show ?case
  proof (cases "P i x")
    case True
    then show ?thesis using Cons.prems by simp
  next
    case False
    then have "first_index_at P (Suc i) xs = Some k"
      using Cons.prems by simp
    then have "Suc i \<le> k \<and> k < Suc i + length xs"
      by (rule Cons.IH)
    then show ?thesis by simp
  qed
qed

lemma first_index_at_Some_iff:
  "first_index_at P i xs = Some k \<longleftrightarrow>
     i \<le> k \<and> k < i + length xs \<and> P k (xs ! (k - i)) \<and>
     (\<forall>j. i \<le> j \<and> j < k \<longrightarrow> \<not> P j (xs ! (j - i)))"
proof (induction xs arbitrary: i)
  case Nil
  then show ?case by auto
next
  case (Cons x xs)
  show ?case
  proof (cases "P i x")
    case True
    then show ?thesis
      by auto
  next
    case False
    have nth: "(x # xs) ! (j - i) = xs ! (j - Suc i)" if "Suc i \<le> j" for j
    proof -
      have "j - i = Suc (j - Suc i)"
        using that by arith
      then show ?thesis by simp
    qed
    show ?thesis
    proof
      assume "first_index_at P i (x # xs) = Some k"
      then have s: "first_index_at P (Suc i) xs = Some k"
        using False by simp
      then have *: "Suc i \<le> k" "k < Suc i + length xs" "P k (xs ! (k - Suc i))"
        "\<forall>j. Suc i \<le> j \<and> j < k \<longrightarrow> \<not> P j (xs ! (j - Suc i))"
        using Cons.IH [of "Suc i"] by auto
      have "\<not> P j ((x # xs) ! (j - i))" if "i \<le> j" "j < k" for j
      proof (cases "j = i")
        case True
        then show ?thesis using False by simp
      next
        case False
        then have "Suc i \<le> j" using that by simp
        then show ?thesis using * that nth [of j] by simp
      qed
      then show "i \<le> k \<and> k < i + length (x # xs) \<and> P k ((x # xs) ! (k - i)) \<and>
        (\<forall>j. i \<le> j \<and> j < k \<longrightarrow> \<not> P j ((x # xs) ! (j - i)))"
        using * nth [of k] by simp
    next
      assume a: "i \<le> k \<and> k < i + length (x # xs) \<and> P k ((x # xs) ! (k - i)) \<and>
        (\<forall>j. i \<le> j \<and> j < k \<longrightarrow> \<not> P j ((x # xs) ! (j - i)))"
      then have "k \<noteq> i" using False by auto
      then have k: "Suc i \<le> k" using a by simp
      have "\<not> P j (xs ! (j - Suc i))" if "Suc i \<le> j" "j < k" for j
      proof -
        have "i \<le> j \<and> j < k" using that by simp
        then have "\<not> P j ((x # xs) ! (j - i))" using a by blast
        then show ?thesis using nth [OF that(1)] by simp
      qed
      then have "first_index_at P (Suc i) xs = Some k"
        using Cons.IH [of "Suc i"] a k nth [of k] by simp
      then show "first_index_at P i (x # xs) = Some k"
        using False by simp
    qed
  qed
qed

lemma first_index_at_None_iff:
  "first_index_at P i xs = None \<longleftrightarrow> (\<forall>j. i \<le> j \<and> j < i + length xs \<longrightarrow> \<not> P j (xs ! (j - i)))"
proof -
  have "first_index_at P i xs = None \<longleftrightarrow> (\<forall>k. first_index_at P i xs \<noteq> Some k)"
    by auto
  also have "\<dots> \<longleftrightarrow> (\<forall>j. i \<le> j \<and> j < i + length xs \<longrightarrow> \<not> P j (xs ! (j - i)))"
  proof
    assume n: "\<forall>k. first_index_at P i xs \<noteq> Some k"
    show "\<forall>j. i \<le> j \<and> j < i + length xs \<longrightarrow> \<not> P j (xs ! (j - i))"
    proof (rule ccontr)
      assume "\<not> (\<forall>j. i \<le> j \<and> j < i + length xs \<longrightarrow> \<not> P j (xs ! (j - i)))"
      then have ex: "\<exists>j. i \<le> j \<and> j < i + length xs \<and> P j (xs ! (j - i))" by blast
      define k where "k = (LEAST j. i \<le> j \<and> j < i + length xs \<and> P j (xs ! (j - i)))"
      have 1: "i \<le> k \<and> k < i + length xs \<and> P k (xs ! (k - i))"
        unfolding k_def using ex by (rule LeastI_ex)
      have 2: "\<not> P j (xs ! (j - i))" if "i \<le> j" "j < k" for j
      proof
        assume "P j (xs ! (j - i))"
        then have "i \<le> j \<and> j < i + length xs \<and> P j (xs ! (j - i))"
          using that 1 by simp
        then have "k \<le> j" unfolding k_def by (rule Least_le)
        then show False using that by simp
      qed
      have "first_index_at P i xs = Some k"
        using 1 2 by (simp add: first_index_at_Some_iff)
      then show False using n by simp
    qed
  next
    assume "\<forall>j. i \<le> j \<and> j < i + length xs \<longrightarrow> \<not> P j (xs ! (j - i))"
    then show "\<forall>k. first_index_at P i xs \<noteq> Some k"
      by (auto simp add: first_index_at_Some_iff)
  qed
  finally show ?thesis .
qed

lemma first_index_at_cong:
  "(\<And>j x. i \<le> j \<Longrightarrow> x \<in> set xs \<Longrightarrow> P j x = Q j x) \<Longrightarrow>
   first_index_at P i xs = first_index_at Q i xs"
  by (induction xs arbitrary: i) auto

lemma locate_loop_meta_found:
  "locate_loop u ts i (Some a) None =
     (Some a, first_index_at (\<lambda>_. looks_like_results_table u) i ts,
      case first_index_at (\<lambda>_. looks_like_results_table u) i ts of
        None \<Rightarrow> i + length ts | Some k \<Rightarrow> Suc k)"
  by (induction ts arbitrary: i) (simp_all split: option.splits)

lemma locate_loop_results_found:
  "locate_loop u ts i None (Some b) =
     (first_index_at (\<lambda>_. looks_like_meta_table u) i ts, Some b,
      case first_index_at (\<lambda>_. looks_like_meta_table u) i ts of
        None \<Rightarrow> i + length ts | Some k \<Rightarrow> Suc k)"
  by (induction ts arbitrary: i) (simp_all split: option.splits)

lemma locate_loop_start:
  "locate_loop u ts i None None =
     (let m = first_index_at (\<lambda>_. looks_like_meta_table u) i ts;
          r = first_index_at (\<lambda>j t. looks_like_results_table u t \<and> Some j \<noteq> m) i ts
      in (m, r, case (m, r) of (Some a, Some b) \<Rightarrow> Suc (max a b) | _ \<Rightarrow> i + length ts))"
proof (induction ts arbitrary: i)
  case Nil
  then show ?case by simp
next
  case (Cons t ts)
  let ?M = "\<lambda>_::nat. looks_like_meta_table u"
  let ?R = "\<lambda>_::nat. looks_like_results_table u"
  show ?case
  proof (cases "looks_like_meta_table u t")
    case True
    have eq: "first_index_at (\<lambda>j t. looks_like_results_table u t \<and> j \<noteq> i) (Suc i) ts =
        first_index_at ?R (Suc i) ts"
      by (rule first_index_at_cong) simp
    have "max i k = k" if "first_index_at ?R (Suc i) ts = Some k" for k
      using first_index_at_bounds [OF that] by simp
    then show ?thesis
      using True by (simp add: locate_loop_meta_found eq Let_def split: option.splits)
  next
    case False
    note notM = this
    show ?thesis
    proof (cases "looks_like_results_table u t")
      case True
      have ne: "first_index_at ?M (Suc i) ts \<noteq> Some i"
        using first_index_at_bounds [of ?M "Suc i" ts i] by auto
      have "max k i = k" if "first_index_at ?M (Suc i) ts = Some k" for k
        using first_index_at_bounds [OF that] by simp
      then show ?thesis
        using True notM ne by (simp add: locate_loop_results_found Let_def split: option.splits)
    next
      case False
      then show ?thesis
        using notM Cons.IH [of "Suc i"] by (simp add: Let_def split: option.splits)
    qed
  qed
qed

lemma locate_eq:
  "locate u doc =
     (let m = first_index_at (\<lambda>_. looks_like_meta_table u) 0 doc;
          r = first_index_at (\<lambda>j t. looks_like_results_table u t \<and> Some j \<noteq> m) 0 doc
      in (m, r, case (m, r) of (Some a, Some b) \<Rightarrow> Suc (max a b) | _ \<Rightarrow> length doc))"
  by (simp add: locate_def locate_loop_start Let_def split: option.splits)

lemma locate_meta_Some:
  "fst (locate u doc) = Some m \<longleftrightarrow>
     m < length doc \<and> looks_like_meta_table u (doc ! m) \<and> (\<forall>j<m. \<not> looks_like_meta_table u (doc ! j))"
  by (simp add: locate_eq Let_def first_index_at_Some_iff)

lemma locate_meta_None:
  "fst (locate u doc) = None \<longleftrightarrow> (\<forall>t \<in> set doc. \<not> looks_like_meta_table u t)"
  by (simp add: locate_eq Let_def first_index_at_None_iff all_set_conv_all_nth)

lemma locate_results_eq:
  "fst (snd (locate u doc)) =
     first_index_at (\<lambda>j t. looks_like_results_table u t \<and> Some j \<noteq> fst (locate u doc)) 0 doc"
  by (simp add: locate_eq Let_def)

lemma locate_results_Some:
  "fst (snd (locate u doc)) = Some k \<longleftrightarrow>
     k < length doc \<and> looks_like_results_table u (doc ! k) \<and> fst (locate u doc) \<noteq> Some k \<and>
     (\<forall>j<k. looks_like_results_table u (doc ! j) \<longrightarrow> fst (locate u doc) = Some j)"
proof -
  have "first_index_at (\<lambda>j t. looks_like_results_table u t \<and> Some j \<noteq> fst (locate u doc)) 0 doc = Some k
    \<longleftrightarrow> k < length doc \<and> looks_like_results_table u (doc ! k) \<and> fst (locate u doc) \<noteq> Some k \<and>
     (\<forall>j<k. looks_like_results_table u (doc ! j) \<longrightarrow> fst (locate u doc) = Some j)"
    unfolding first_index_at_Some_iff by auto
  then show ?thesis
    by (simp only: locate_results_eq [symmetric])
qed

lemma locate_results_None:
  "fst (snd (locate u doc)) = None \<longleftrightarrow>
     (\<forall>j<length doc. looks_like_results_table u (doc ! j) \<longrightarrow> fst (locate u doc) = Some j)"
proof -
  have "first_index_at (\<lambda>j t. looks_like_results_table u t \<and> Some j \<noteq> fst (locate u doc)) 0 doc = None
    \<longleftrightarrow> (\<forall>j<length doc. looks_like_results_table u (doc ! j) \<longrightarrow> fst (locate u doc) = Some j)"
    unfolding first_index_at_None_iff by auto
  then show ?thesis
    by (simp only: locate_results_eq [symmetric])
qed

lemma locate_scanned:
  "snd (snd (locate u doc)) =
     (case (fst (locate u doc), fst (snd (locate u doc))) of
        (Some a, Some b) \<Rightarrow> Suc (max a b) | _ \<Rightarrow> length doc)"
  by (simp add: locate_eq Let_def)

lemma sample_meta_table_tests:
  "looks_like_meta_table sample_unicode sample_meta_table" "\<not> looks_like_results_table sample_unicode sample_meta_table"
  by (simp_all add: sample_meta_table_def looks_like_meta_table_def looks_like_meta_table_try_def
      looks_like_results_table_def looks_like_results_table_try_def table_cell_def cell_text_def
      paragraph_text_def text_cell_def text_para_def table_cells_def string_evals)

lemma sample_results_table_tests:
  "\<not> looks_like_meta_table sample_unicode sample_results_table" "looks_like_results_table sample_unicode sample_results_table"
  by (simp_all add: sample_results_table_def looks_like_meta_table_def looks_like_meta_table_try_def
      looks_like_results_table_def looks_like_results_table_try_def table_cell_def cell_text_def
      paragraph_text_def text_cell_def text_para_def table_cells_def string_evals)

lemma sample_both_table_tests:
  "looks_like_meta_table sample_unicode sample_both_table" "looks_like_results_table sample_unicode sample_both_table"
  by (simp_all add: sample_both_table_def looks_like_meta_table_def looks_like_meta_table_try_def
      looks_like_results_table_def looks_like_results_table_try_def table_cell_def cell_text_def
      paragraph_text_def text_cell_def text_para_def table_cells_def string_evals)

text \<open>
  Claim C5 says that the results table is the first table that passes the results test,
  whichever table became the metadata table. In a document whose first table passes both
  tests and whose second passes the results test, the loop takes the first as metadata table
  and the second as results table.
\<close>

theorem locate_results_not_first_match:
  "looks_like_results_table sample_unicode ([sample_both_table, sample_results_table] ! 0) \<and>
   locate sample_unicode [sample_both_table, sample_results_table] = (Some 0, Some 1, 2) \<and>
   fst (snd (locate sample_unicode [sample_both_table, sample_results_table])) \<noteq> Some 0"
  by (simp add: locate_def sample_both_table_tests sample_results_table_tests)

text \<open>
  Claim C5, amended. The loop scans the tables in document order. The metadata table is the
  first table that passes the metadata test. The results table is the first table that
  passes the results test and was not taken as the metadata table. The scan ends right
  after the table that completes the pair, and at the end of the document otherwise.
\<close>

theorem locate_first_matches:
  "(fst (locate u doc) = Some m \<longleftrightarrow>
      m < length doc \<and> looks_like_meta_table u (doc ! m) \<and>
      (\<forall>j<m. \<not> looks_like_meta_table u (doc ! j))) \<and>
   (fst (locate u doc) = None \<longleftrightarrow> (\<forall>t \<in> set doc. \<not> looks_like_meta_table u t)) \<and>
   (fst (snd (locate u doc)) = Some k \<longleftrightarrow>
      k < length doc \<and> looks_like_results_table u (doc ! k) \<and> fst (locate u doc) \<noteq> Some k \<and>
      (\<forall>j<k. looks_like_results_table u (doc ! j) \<longrightarrow> fst (locate u doc) = Some j)) \<and>
   (fst (snd (locate u doc)) = None \<longleftrightarrow>
      (\<forall>j<length doc. looks_like_results_table u (doc ! j) \<longrightarrow> fst (locate u doc) = Some j)) \<and>
   (fst (locate u doc) = Some m \<and> fst (snd (locate u doc)) = Some k \<longrightarrow>
      snd (snd (locate u doc)) = Suc (max m k)) \<and>
   (fst (locate u doc) = None \<or> fst (snd (locate u doc)) = None \<longrightarrow>
      snd (snd (locate u doc)) = length doc)"
proof -
  have 5: "snd (snd (locate u doc)) = Suc (max m k)"
    if "fst (locate u doc) = Some m" "fst (snd (locate u doc)) = Some k"
    using that by (simp add: locate_scanned)
  have 6: "snd (snd (locate u doc)) = length doc"
    if "fst (locate u doc) = None \<or> fst (snd (locate u doc)) = None"
    using that by (auto simp add: locate_scanned split: option.splits)
  show ?thesis
    using locate_meta_Some [of u doc m] locate_meta_None [of u doc] locate_results_Some [of u doc k]
      locate_results_None [of u doc] 5 6
    by blast
qed

theorem locate_first_matches_witness:
  "locate sample_unicode [sample_results_table, sample_meta_table, sample_both_table] = (Some 1, Some 0, 2) \<and>
   looks_like_meta_table sample_unicode ([sample_results_table, sample_meta_table, sample_both_table] ! 1) \<and>
   looks_like_results_table sample_unicode ([sample_results_table, sample_meta_table, sample_both_table] ! 0) \<and>
   snd (snd (locate sample_unicode [sample_results_table, sample_meta_table, sample_both_table])) = Suc (max 1 0)"
  using locate_first_matches [of sample_unicode "[sample_results_table, sample_meta_table, sample_both_table]" 1 0]
  by (simp add: locate_def sample_both_table_tests sample_results_table_tests sample_meta_table_tests)

lemma fill_template_tables_False:
  "fill_template_tables u doc cls rs tt = Inr (doc', False) \<longleftrightarrow>
     doc' = doc \<and> (fst (locate u doc) = None \<or> fst (snd (locate u doc)) = None)"
  by (cases "locate u doc")
     (auto simp add: fill_template_tables_def Let_def split: option.splits sum.splits)

text \<open>
  Claim C3 says that the populator returns False only when both tables are missing and
  still writes when one of them is found. A document with a metadata table and no results
  table, and one with a results table and no metadata table, both give False and stay as
  they were.
\<close>

theorem fill_template_tables_false_with_one_table:
  "looks_like_meta_table sample_unicode sample_meta_table \<and>
   fill_template_tables sample_unicode [sample_meta_table] sample_class [] (text_of ''T'') = Inr ([sample_meta_table], False) \<and>
   looks_like_results_table sample_unicode sample_results_table \<and>
   fill_template_tables sample_unicode [sample_results_table] sample_class [] (text_of ''T'') =
     Inr ([sample_results_table], False)"
  by (simp add: fill_template_tables_def locate_def sample_meta_table_tests sample_results_table_tests)

text \<open>
  Claim C3, amended. The populator returns False exactly when the loop found no metadata
  table or no results table, and the document is then unchanged; this is the case whenever
  no table passes one of the two tests. When both tables are found it does not return False:
  it returns True or raises.
\<close>

theorem fill_template_tables_false_iff:
  "((\<exists>doc'. fill_template_tables u doc cls rs tt = Inr (doc', False)) \<longleftrightarrow>
      fst (locate u doc) = None \<or> fst (snd (locate u doc)) = None) \<and>
   (fill_template_tables u doc cls rs tt = Inr (doc', False) \<longrightarrow> doc' = doc) \<and>
   (fst (locate u doc) = None \<or> fst (snd (locate u doc)) = None \<longrightarrow>
      fill_template_tables u doc cls rs tt = Inr (doc, False)) \<and>
   ((\<forall>t \<in> set doc. \<not> looks_like_meta_table u t) \<longrightarrow>
      fill_template_tables u doc cls rs tt = Inr (doc, False)) \<and>
   ((\<forall>t \<in> set doc. \<not> looks_like_results_table u t) \<longrightarrow>
      fill_template_tables u doc cls rs tt = Inr (doc, False)) \<and>
   (fst (locate u doc) \<noteq> None \<and> fst (snd (locate u doc)) \<noteq> None \<longrightarrow>
      (\<exists>e. fill_template_tables u doc cls rs tt = Inl e) \<or>
      (\<exists>doc''. fill_template_tables u doc cls rs tt = Inr (doc'', True)))"
proof -
  have a: "fst (locate u doc) = None" if "\<forall>t \<in> set doc. \<not> looks_like_meta_table u t"
    using that by (simp add: locate_meta_None)
  have b: "fst (snd (locate u doc)) = None" if "\<forall>t \<in> set doc. \<not> looks_like_results_table u t"
    using that by (simp add: locate_results_None)
  have c: "(\<exists>e. fill_template_tables u doc cls rs tt = Inl e) \<or>
      (\<exists>doc''. fill_template_tables u doc cls rs tt = Inr (doc'', True))"
    if "fst (locate u doc) \<noteq> None \<and> fst (snd (locate u doc)) \<noteq> None"
    using that
    by (cases "locate u doc")
       (auto simp add: fill_template_tables_def Let_def split: option.splits sum.splits)
  show ?thesis
    using a b c by (auto simp add: fill_template_tables_False)
qed

theorem fill_template_tables_false_iff_witness:
  "fst (snd (locate sample_unicode [sample_meta_table, sample_meta_table])) = None \<and>
   fill_template_tables sample_unicode [sample_meta_table, sample_meta_table] sample_class [] (text_of ''T'') =
     Inr ([sample_meta_table, sample_meta_table], False)"
  using fill_template_tables_false_iff [of sample_unicode "[sample_meta_table, sample_meta_table]" sample_class "[]" "text_of ''T''"]
  by (simp add: locate_def sample_meta_table_tests)

section \<open>Properties of the populator\<close>

lemma update_cells_concat:
  "concat (update_cells rows i f) = (concat rows)[i := f (concat rows ! i)]"
proof (induction rows arbitrary: i)
  case Nil
  then show ?case by simp
next
  case (Cons cells rest)
  show ?case
  proof (cases "i < length cells")
    case True
    then show ?thesis
      by (simp add: list_update_append nth_append)
  next
    case False
    then show ?thesis
      using Cons.IH [of "i - length cells"] by (simp add: list_update_append nth_append)
  qed
qed

lemma update_cells_shape: "map length (update_cells rows i f) = map length rows"
  by (induction rows arbitrary: i) simp_all

lemma write_cell_Inr:
  assumes "write_cell tbl r c f = Inr tbl'"
  shows "c + r * tbl_columns tbl < length (table_cells tbl)"
    and "table_cells tbl' =
      (table_cells tbl)[c + r * tbl_columns tbl := f (table_cells tbl ! (c + r * tbl_columns tbl))]"
    and "map length (tbl_rows tbl') = map length (tbl_rows tbl)"
    and "tbl_columns tbl' = tbl_columns tbl"
  using assms
  by (auto simp add: write_cell_def table_cell_def table_cells_def Let_def update_cells_concat
      update_cells_shape split: if_splits)

lemma write_values_shape:
  "write_values u tbl ws = Inr tbl' \<Longrightarrow>
   map length (tbl_rows tbl') = map length (tbl_rows tbl) \<and> tbl_columns tbl' = tbl_columns tbl"
proof (induction ws arbitrary: tbl)
  case Nil
  then show ?case by simp
next
  case (Cons w ws)
  obtain r c v where w: "w = (r, c, v)" by (cases w)
  from Cons.prems obtain t1 where
    1: "write_cell tbl r c (\<lambda>x. cell_set_text u x v False True None True) = Inr t1"
    and 2: "write_values u t1 ws = Inr tbl'"
    by (auto simp add: w split: sum.splits)
  show ?case
    using Cons.IH [OF 2] write_cell_Inr(3,4) [OF 1] by simp
qed

lemma write_values_other:
  "write_values u tbl ws = Inr tbl' \<Longrightarrow>
   j \<notin> set (map (\<lambda>(r, c, v). c + r * tbl_columns tbl) ws) \<Longrightarrow>
   table_cells tbl' ! j = table_cells tbl ! j"
proof (induction ws arbitrary: tbl)
  case Nil
  then show ?case by simp
next
  case (Cons w ws)
  obtain r c v where w: "w = (r, c, v)" by (cases w)
  from Cons.prems(1) obtain t1 where
    1: "write_cell tbl r c (\<lambda>x. cell_set_text u x v False True None True) = Inr t1"
    and 2: "write_values u t1 ws = Inr tbl'"
    by (auto simp add: w split: sum.splits)
  note wc = write_cell_Inr [OF 1]
  have ne: "j \<noteq> c + r * tbl_columns tbl"
    and rest: "j \<notin> set (map (\<lambda>(r, c, v). c + r * tbl_columns t1) ws)"
    using Cons.prems(2) by (auto simp add: w wc(4))
  show ?case
    using Cons.IH [OF 2 rest] ne by (simp add: wc(2))
qed

lemma write_values_written:
  "write_values u tbl ws = Inr tbl' \<Longrightarrow>
   distinct (map (\<lambda>(r, c, v). c + r * tbl_columns tbl) ws) \<Longrightarrow>
   (r', c', v') \<in> set ws \<Longrightarrow>
   c' + r' * tbl_columns tbl < length (table_cells tbl) \<and>
   table_cells tbl' ! (c' + r' * tbl_columns tbl) =
     cell_set_text u (table_cells tbl ! (c' + r' * tbl_columns tbl)) v' False True None True"
proof (induction ws arbitrary: tbl)
  case Nil
  then show ?case by simp
next
  case (Cons w ws)
  obtain r c v where w: "w = (r, c, v)" by (cases w)
  from Cons.prems(1) obtain t1 where
    1: "write_cell tbl r c (\<lambda>x. cell_set_text u x v False True None True) = Inr t1"
    and 2: "write_values u t1 ws = Inr tbl'"
    by (auto simp add: w split: sum.splits)
  note wc = write_cell_Inr [OF 1]
  have d: "c + r * tbl_columns tbl \<notin> set (map (\<lambda>(r, c, v). c + r * tbl_columns t1) ws)"
    "distinct (map (\<lambda>(r, c, v). c + r * tbl_columns t1) ws)"
    using Cons.prems(2) by (simp_all add: w wc(4))
  have len: "length (table_cells t1) = length (table_cells tbl)"
    by (simp add: wc(2))
  show ?case
  proof (cases "(r', c', v') = (r, c, v)")
    case True
    have "table_cells tbl' ! (c + r * tbl_columns tbl) = table_cells t1 ! (c + r * tbl_columns tbl)"
      using write_values_other [OF 2 d(1)] .
    then show ?thesis
      using True wc(1) by (simp add: wc(2))
  next
    case False
    then have mem: "(r', c', v') \<in> set ws"
      using Cons.prems(3) by (auto simp add: w)
    then have "c' + r' * tbl_columns t1 \<in> set (map (\<lambda>(r, c, v). c + r * tbl_columns t1) ws)"
      by force
    then have "c' + r' * tbl_columns t1 \<noteq> c + r * tbl_columns tbl"
      using d(1) by metis
    then have ne: "c' + r' * tbl_columns tbl \<noteq> c + r * tbl_columns tbl"
      by (simp add: wc(4))
    have ih: "c' + r' * tbl_columns t1 < length (table_cells t1) \<and>
      table_cells tbl' ! (c' + r' * tbl_columns t1) =
        cell_set_text u (table_cells t1 ! (c' + r' * tbl_columns t1)) v' False True None True"
      using Cons.IH [OF 2 d(2) mem] .
    show ?thesis
      using ih ne len by (simp add: wc(2) wc(4))
  qed
qed

lemma rectangular_concat:
  assumes "\<forall>cells \<in> set rows. length cells = n"
  shows "length (concat rows) = length rows * n"
    and "r < length rows \<Longrightarrow> c < n \<Longrightarrow> concat rows ! (c + r * n) = rows ! r ! c"
proof -
  show "length (concat rows) = length rows * n"
    using assms by (induction rows) simp_all
  show "concat rows ! (c + r * n) = rows ! r ! c" if "r < length rows" "c < n"
    using assms that
  proof (induction rows arbitrary: r)
    case Nil
    then show ?case by simp
  next
    case (Cons x xs)
    show ?case
    proof (cases r)
      case 0
      then show ?thesis
        using Cons.prems by (simp add: nth_append)
    next
      case (Suc r')
      have "c + Suc r' * n = length x + (c + r' * n)"
        using Cons.prems(1) by simp
      then have "(x @ concat xs) ! (c + Suc r' * n) = concat xs ! (c + r' * n)"
        by (simp only: nth_append_length_plus)
      then show ?thesis
        using Cons Suc by simp
    qed
  qed
qed

lemma cell_index_inj:
  assumes "(c::nat) < n" "c' < n" "c + r * n = c' + r' * n"
  shows "r = r' \<and> c = c'"
proof -
  have "(c + r * n) div n = r" "(c + r * n) mod n = c"
    using assms(1) by simp_all
  moreover have "(c' + r' * n) div n = r'" "(c' + r' * n) mod n = c'"
    using assms(2) by simp_all
  ultimately show ?thesis
    using assms(3) by metis
qed

lemma paragraph_text_set_p_no_space: "paragraph_text (set_p_no_space p) = paragraph_text p"
  by (simp add: paragraph_text_def set_p_no_space_def)

lemma set_cell_paras_no_space_keeps:
  "cell_text (set_cell_paras_no_space x) = cell_text x"
  "map runs (paragraphs (set_cell_paras_no_space x)) = map runs (paragraphs x)"
  "map alignment (paragraphs (set_cell_paras_no_space x)) = map alignment (paragraphs x)"
  "cell_properties (set_cell_paras_no_space x) = cell_properties x"
  "\<forall>p \<in> set (paragraphs (set_cell_paras_no_space x)).
     space_before p = Some 0 \<and> space_after p = Some 0 \<and> line_spacing p = Some 1"
  by (simp_all add: set_cell_paras_no_space_def cell_text_def comp_def
      paragraph_text_set_p_no_space)
     (simp_all add: set_p_no_space_def)

lemma value_cell_eq:
  "set_cell_paras_no_space (cell_set_text u x v False True None True) =
     x\<lparr>paragraphs :=
        [\<lparr>runs = [blank_run,
                   \<lparr>run_text = upper u (or_empty v), bold = Some False, underline = Some True,
                    color = None\<rparr>],
          alignment = None, space_before = Some 0, space_after = Some 0,
          line_spacing = Some 1\<rparr>]\<rparr>"
  by (simp add: set_cell_paras_no_space_def cell_set_text_def set_p_no_space_def
      empty_paragraph_def Let_def)

lemma fill_meta_cells:
  assumes "fill_meta u tbl cls tt = Inr tbl'"
    and "rectangular tbl" "3 \<le> length (tbl_rows tbl)" "4 \<le> tbl_columns tbl"
  shows "map length (tbl_rows tbl') = map length (tbl_rows tbl)"
    and "\<And>r c v. (r, c, v) \<in> set [(0, 1, teacher cls),
             (0, 3, Some (text_of (str_int (grade cls)))),
             (1, 1, school cls), (1, 3, section_name cls), (2, 1, Some tt),
             (2, 3, date_text cls)] \<Longrightarrow>
          r < length (tbl_rows tbl) \<and> c < length (tbl_rows tbl ! r) \<and>
          tbl_rows tbl' ! r ! c =
            set_cell_paras_no_space
              (cell_set_text u (tbl_rows tbl ! r ! c) v False True None True)"
    and "\<And>r c. r < length (tbl_rows tbl) \<Longrightarrow> c < length (tbl_rows tbl ! r) \<Longrightarrow>
          (r, c) \<notin> {(0, 1), (0, 3), (1, 1), (1, 3), (2, 1), (2, 3)} \<Longrightarrow>
          tbl_rows tbl' ! r ! c = set_cell_paras_no_space (tbl_rows tbl ! r ! c)"
proof -
  let ?n = "tbl_columns tbl"
  let ?ws = "[(0::nat, 1::nat, teacher cls), (0, 3, Some (text_of (str_int (grade cls)))),
             (1, 1, school cls), (1, 3, section_name cls), (2, 1, Some tt),
             (2, 3, date_text cls)]"
  from assms(1) obtain t6 where
    6: "write_values u tbl ?ws = Inr t6"
    and t': "tbl' = t6\<lparr>tbl_rows := map (map set_cell_paras_no_space) (tbl_rows t6)\<rparr>"
    by (auto simp add: fill_meta_def split: sum.splits)
  have shape: "map length (tbl_rows t6) = map length (tbl_rows tbl)"
    using write_values_shape [OF 6] by simp
  then have len: "length (tbl_rows t6) = length (tbl_rows tbl)"
    by (metis length_map)
  have rect: "\<forall>cells \<in> set (tbl_rows tbl). length cells = ?n"
    using assms(2) by (simp add: rectangular_def)
  have "set (map length (tbl_rows t6)) = set (map length (tbl_rows tbl))"
    using shape by simp
  then have rect6: "\<forall>cells \<in> set (tbl_rows t6). length cells = ?n"
    using rect by auto
  have rowlen: "length (tbl_rows tbl ! r) = ?n" if "r < length (tbl_rows tbl)" for r
    using rect that by simp
  have flat: "tbl_rows tbl ! r ! c = table_cells tbl ! (c + r * ?n)"
    if "r < length (tbl_rows tbl)" "c < ?n" for r c
    using rectangular_concat(2) [OF rect that] by (simp add: table_cells_def)
  have flat6: "tbl_rows t6 ! r ! c = table_cells t6 ! (c + r * ?n)"
    if "r < length (tbl_rows tbl)" "c < ?n" for r c
    using rectangular_concat(2) [OF rect6, of r c] that len by (simp add: table_cells_def)
  have at: "tbl_rows tbl' ! r ! c = set_cell_paras_no_space (table_cells t6 ! (c + r * ?n))"
    if "r < length (tbl_rows tbl)" "c < ?n" for r c
  proof -
    have "length (tbl_rows t6 ! r) = ?n"
      using rect6 that(1) len by simp
    then show ?thesis
      using that len flat6 [OF that] by (simp add: t')
  qed
  show "map length (tbl_rows tbl') = map length (tbl_rows tbl)"
    using shape by (simp add: t' comp_def)
  have dist: "distinct (map (\<lambda>(r, c, v). c + r * ?n) ?ws)"
    using assms(4) by simp
  show "r < length (tbl_rows tbl) \<and> c < length (tbl_rows tbl ! r) \<and>
          tbl_rows tbl' ! r ! c =
            set_cell_paras_no_space
              (cell_set_text u (tbl_rows tbl ! r ! c) v False True None True)"
    if m: "(r, c, v) \<in> set ?ws" for r c v
  proof -
    have rc: "r < length (tbl_rows tbl)" "c < ?n"
      using m assms(3,4) by auto
    show ?thesis
      using write_values_written [OF 6 dist m] at [OF rc] flat [OF rc] rc rowlen [OF rc(1)]
      by simp
  qed
  show "tbl_rows tbl' ! r ! c = set_cell_paras_no_space (tbl_rows tbl ! r ! c)"
    if "r < length (tbl_rows tbl)" "c < length (tbl_rows tbl ! r)"
      "(r, c) \<notin> {(0, 1), (0, 3), (1, 1), (1, 3), (2, 1), (2, 3)}" for r c
  proof -
    have rc: "r < length (tbl_rows tbl)" "c < ?n"
      using that rowlen by simp_all
    have "c + r * ?n \<noteq> c' + r' * ?n"
      if "(r', c') \<in> {(0, 1), (0, 3), (1, 1), (1, 3), (2, 1), (2, 3)}" for r' c'
    proof
      assume e: "c + r * ?n = c' + r' * ?n"
      have "c' < ?n" using that assms(4) by auto
      then have "r = r' \<and> c = c'"
        using cell_index_inj [OF rc(2) _ e] by simp
      then show False
        using that \<open>(r, c) \<notin> {(0, 1), (0, 3), (1, 1), (1, 3), (2, 1), (2, 3)}\<close> by simp
    qed
    then have "c + r * ?n \<notin> set (map (\<lambda>(r, c, v). c + r * ?n) ?ws)"
      by fastforce
    then show ?thesis
      using write_values_other [OF 6] at [OF rc] flat [OF rc] by simp
  qed
qed

lemma fill_template_tables_True:
  assumes "fill_template_tables u doc cls rs tt = Inr (doc', True)"
  shows "\<exists>m. fst (locate u doc) = Some m \<and> m < length doc \<and>
           fill_meta u (doc ! m) cls tt = Inr (doc' ! m)"
proof -
  obtain mo ro n where l: "locate u doc = (mo, ro, n)"
    by (cases "locate u doc")
  from assms l obtain m r mt rt where
    m: "mo = Some m" and r: "ro = Some r"
    and mt: "fill_meta u (doc ! m) cls tt = Inr mt"
    and d: "doc' = (doc[m := mt])[r := rt]"
    by (auto simp add: fill_template_tables_def Let_def split: option.splits sum.splits)
  have fm: "fst (locate u doc) = Some m" and fr: "fst (snd (locate u doc)) = Some r"
    using l m r by simp_all
  have "m < length doc"
    using fm by (simp add: locate_meta_Some)
  moreover have "m \<noteq> r"
    using fr fm by (auto simp add: locate_results_Some)
  ultimately have "doc' ! m = mt"
    by (simp add: d)
  then show ?thesis
    using fm mt \<open>m < length doc\<close> by simp
qed

text \<open>
  Claim C4, amended. When the populator succeeds on a metadata table that is rectangular,
  the table keeps its shape; each of the six value cells (row 0, 1 and 2, columns 1 and 3)
  holds one tight paragraph whose text run carries the upper-cased value, underlined and not
  bold; and every other cell of the table, the label cells of columns 0 and 2 among them,
  keeps its text, its runs, the alignment of its paragraphs and its cell properties. The one
  change to those cells is the spacing of their paragraphs, which is set to 0 before, 0
  after and single line spacing.
\<close>

theorem fill_template_tables_meta_cells:
  assumes "fill_template_tables u doc cls rs tt = Inr (doc', True)"
    and "fst (locate u doc) = Some m"
    and "rectangular (doc ! m)"
  shows "map length (tbl_rows (doc' ! m)) = map length (tbl_rows (doc ! m)) \<and>
    (\<forall>(r, c, v) \<in> set [(0, 1, teacher cls), (0, 3, Some (text_of (str_int (grade cls)))),
         (1, 1, school cls), (1, 3, section_name cls), (2, 1, Some tt),
         (2, 3, date_text cls)].
       r < length (tbl_rows (doc ! m)) \<and> c < length (tbl_rows (doc ! m) ! r) \<and>
       tbl_rows (doc' ! m) ! r ! c =
         (tbl_rows (doc ! m) ! r ! c)\<lparr>paragraphs :=
            [\<lparr>runs = [blank_run,
                       \<lparr>run_text = upper u (or_empty v), bold = Some False,
                        underline = Some True, color = None\<rparr>],
              alignment = None, space_before = Some 0, space_after = Some 0,
              line_spacing = Some 1\<rparr>]\<rparr>) \<and>
    (\<forall>r c. r < length (tbl_rows (doc ! m)) \<and> c < length (tbl_rows (doc ! m) ! r) \<and>
       (r, c) \<notin> {(0, 1), (0, 3), (1, 1), (1, 3), (2, 1), (2, 3)} \<longrightarrow>
       cell_text (tbl_rows (doc' ! m) ! r ! c) = cell_text (tbl_rows (doc ! m) ! r ! c) \<and>
       map runs (paragraphs (tbl_rows (doc' ! m) ! r ! c)) =
         map runs (paragraphs (tbl_rows (doc ! m) ! r ! c)) \<and>
       map alignment (paragraphs (tbl_rows (doc' ! m) ! r ! c)) =
         map alignment (paragraphs (tbl_rows (doc ! m) ! r ! c)) \<and>
       cell_properties (tbl_rows (doc' ! m) ! r ! c) =
         cell_properties (tbl_rows (doc ! m) ! r ! c) \<and>
       (\<forall>p \<in> set (paragraphs (tbl_rows (doc' ! m) ! r ! c)).
          space_before p = Some 0 \<and> space_after p = Some 0 \<and> line_spacing p = Some 1))"
proof -
  from fill_template_tables_True [OF assms(1)] assms(2)
  have fm: "fill_meta u (doc ! m) cls tt = Inr (doc' ! m)"
    by auto
  have "looks_like_meta_table u (doc ! m)"
    using assms(2) by (simp add: locate_meta_Some)
  then have sh: "3 \<le> length (tbl_rows (doc ! m))" "4 \<le> tbl_columns (doc ! m)"
    using looks_like_meta_table_shape by blast+
  note c = fill_meta_cells [OF fm assms(3) sh]
  have v: "r < length (tbl_rows (doc ! m)) \<and> c < length (tbl_rows (doc ! m) ! r) \<and>
       tbl_rows (doc' ! m) ! r ! c =
         (tbl_rows (doc ! m) ! r ! c)\<lparr>paragraphs :=
            [\<lparr>runs = [blank_run,
                       \<lparr>run_text = upper u (or_empty v), bold = Some False,
                        underline = Some True, color = None\<rparr>],
              alignment = None, space_before = Some 0, space_after = Some 0,
              line_spacing = Some 1\<rparr>]\<rparr>"
    if "(r, c, v) \<in> set [(0, 1, teacher cls), (0, 3, Some (text_of (str_int (grade cls)))),
         (1, 1, school cls), (1, 3, section_name cls), (2, 1, Some tt),
         (2, 3, date_text cls)]" for r c v
    using c(2) [OF that] by (simp only: value_cell_eq)
  have o: "cell_text (tbl_rows (doc' ! m) ! r ! c) = cell_text (tbl_rows (doc ! m) ! r ! c) \<and>
       map runs (paragraphs (tbl_rows (doc' ! m) ! r ! c)) =
         map runs (paragraphs (tbl_rows (doc ! m) ! r ! c)) \<and>
       map alignment (paragraphs (tbl_rows (doc' ! m) ! r ! c)) =
         map alignment (paragraphs (tbl_rows (doc ! m) ! r ! c)) \<and>
       cell_properties (tbl_rows (doc' ! m) ! r ! c) =
         cell_properties (tbl_rows (doc ! m) ! r ! c) \<and>
       (\<forall>p \<in> set (paragraphs (tbl_rows (doc' ! m) ! r ! c)).
          space_before p = Some 0 \<and> space_after p = Some 0 \<and> line_spacing p = Some 1)"
    if "r < length (tbl_rows (doc ! m))" "c < length (tbl_rows (doc ! m) ! r)"
       "(r, c) \<notin> {(0, 1), (0, 3), (1, 1), (1, 3), (2, 1), (2, 3)}" for r c
    using set_cell_paras_no_space_keeps [of "tbl_rows (doc ! m) ! r ! c"]
    by (simp only: c(3) [OF that])
  show ?thesis
    using c(1) v o by blast
qed

lemma locate_sample_doc: "locate sample_unicode sample_doc = (Some 0, Some 1, 2)"
  by (simp add: sample_doc_def locate_def sample_meta_table_tests sample_results_table_tests)

lemma rectangular_sample_meta_table: "rectangular sample_meta_table"
  by (simp add: rectangular_def sample_meta_table_def)

lemma fill_meta_sample:
  "\<exists>t. fill_meta sample_unicode sample_meta_table sample_class (text_of ''T'') = Inr t"
  by (simp add: fill_meta_def sample_meta_table_def write_cell_def table_cell_def
      table_cells_def)

lemma add_rows_until_eq:
  "add_rows_until tbl needed =
     tbl\<lparr>tbl_rows := tbl_rows tbl @
       replicate (needed - length (tbl_rows tbl)) (replicate (tbl_columns tbl) new_cell)\<rparr>"
proof (induction tbl needed rule: add_rows_until.induct)
  case (1 tbl needed)
  show ?case
  proof (cases "length (tbl_rows tbl) < needed")
    case True
    then have "needed - length (tbl_rows tbl) = Suc (needed - Suc (length (tbl_rows tbl)))"
      by simp
    then show ?thesis
      using True 1 by (simp add: add_rows_until.simps [of tbl needed] add_row_def)
  next
    case False
    then show ?thesis
      by (simp add: add_rows_until.simps [of tbl needed])
  qed
qed

lemma fill_results_sample:
  "\<exists>t. fill_results sample_unicode sample_results_table [] = Inr t"
  by (simp add: fill_results_def sample_results_table_def Let_def add_rows_until_eq)

lemma fill_sample_doc:
  "\<exists>d. fill_template_tables sample_unicode sample_doc sample_class [] (text_of ''T'') =
     Inr (d, True)"
  using fill_meta_sample fill_results_sample
  by (auto simp add: fill_template_tables_def locate_sample_doc Let_def)
     (auto simp add: sample_doc_def)

lemma narrow_rows_table_tests:
  "looks_like_meta_table sample_unicode narrow_rows_table"
  by (simp add: narrow_rows_table_def looks_like_meta_table_def looks_like_meta_table_try_def
      table_cell_def cell_text_def paragraph_text_def text_cell_def text_para_def
      table_cells_def string_evals)

lemma fill_meta_narrow_rows:
  "map_sum id (\<lambda>t. cell_text (tbl_rows t ! 1 ! 2))
     (fill_meta sample_unicode narrow_rows_table sample_class (text_of ''T'')) = Inr []"
  by (simp add: fill_meta_def narrow_rows_table_def write_cell_def table_cell_def
      table_cells_def sample_class_def cell_set_text_def Let_def set_cell_paras_no_space_def
      set_p_no_space_def empty_paragraph_def blank_run_def cell_text_def paragraph_text_def
      or_empty_def upper_def)

lemma fill_narrow_doc:
  "\<exists>d. fill_template_tables sample_unicode [narrow_rows_table, sample_results_table]
     sample_class [] (text_of ''T'') = Inr (d, True)"
proof -
  have l: "locate sample_unicode [narrow_rows_table, sample_results_table] = (Some 0, Some 1, 2)"
    by (simp add: locate_def narrow_rows_table_tests sample_results_table_tests)
  have "\<not> isl (fill_meta sample_unicode narrow_rows_table sample_class (text_of ''T''))"
    using fill_meta_narrow_rows by (auto simp add: isl_def)
  then obtain t where "fill_meta sample_unicode narrow_rows_table sample_class (text_of ''T'') = Inr t"
    by (cases "fill_meta sample_unicode narrow_rows_table sample_class (text_of ''T'')") auto
  then show ?thesis
    using fill_results_sample by (auto simp add: fill_template_tables_def l Let_def)
qed

text \<open>
  Claim C4 says that the paragraph formatting of a label cell is the same before and after.
  In the sample document the label cell of row 0, column 0 has 12 points after its paragraph
  before the populator runs and 0 after it. And in a metadata table whose rows are shorter
  than its grid the write to \<^verbatim>\<open>cell(1, 1)\<close> lands on the label of row 1, column 2, whose
  text is gone afterwards.
\<close>

theorem fill_template_tables_label_spacing_changes:
  "\<not> isl (fill_template_tables sample_unicode sample_doc sample_class [] (text_of ''T'')) \<and>
   snd (projr (fill_template_tables sample_unicode sample_doc sample_class [] (text_of ''T''))) =
     True \<and>
   fst (locate sample_unicode sample_doc) = Some 0 \<and>
   map space_after (paragraphs (tbl_rows (sample_doc ! 0) ! 0 ! 0)) = [Some 12] \<and>
   map space_after (paragraphs (tbl_rows
     (fst (projr (fill_template_tables sample_unicode sample_doc sample_class []
        (text_of ''T''))) ! 0) ! 0 ! 0)) = [Some 0] \<and>
   \<not> isl (fill_template_tables sample_unicode [narrow_rows_table, sample_results_table]
     sample_class [] (text_of ''T'')) \<and>
   snd (projr (fill_template_tables sample_unicode [narrow_rows_table, sample_results_table]
     sample_class [] (text_of ''T''))) = True \<and>
   cell_text (tbl_rows ([narrow_rows_table, sample_results_table] ! 0) ! 1 ! 2) =
     text_of ''Section:'' \<and>
   cell_text (tbl_rows
     (fst (projr (fill_template_tables sample_unicode [narrow_rows_table, sample_results_table]
        sample_class [] (text_of ''T''))) ! 0) ! 1 ! 2) = []"
proof -
  obtain d where d: "fill_template_tables sample_unicode sample_doc sample_class []
      (text_of ''T'') = Inr (d, True)"
    using fill_sample_doc by blast
  obtain m where "fst (locate sample_unicode sample_doc) = Some m"
    and fm: "fill_meta sample_unicode (sample_doc ! m) sample_class (text_of ''T'') = Inr (d ! m)"
    using fill_template_tables_True [OF d] by blast
  then have m: "m = 0"
    by (simp add: locate_sample_doc)
  have r: "rectangular (sample_doc ! 0)"
    by (simp add: sample_doc_def rectangular_sample_meta_table)
  have "tbl_rows (d ! 0) ! 0 ! 0 = set_cell_paras_no_space (tbl_rows (sample_doc ! 0) ! 0 ! 0)"
    using fm r unfolding m
    by (rule fill_meta_cells(3)) (simp_all add: sample_doc_def sample_meta_table_def)
  then have a: "map space_after (paragraphs (tbl_rows (d ! 0) ! 0 ! 0)) = [Some 0]"
    by (simp add: sample_doc_def sample_meta_table_def text_cell_def text_para_def
        set_cell_paras_no_space_def set_p_no_space_def)
  have b: "map space_after (paragraphs (tbl_rows (sample_doc ! 0) ! 0 ! 0)) = [Some 12]"
    by (simp add: sample_doc_def sample_meta_table_def text_cell_def text_para_def)
  obtain e where e: "fill_template_tables sample_unicode [narrow_rows_table, sample_results_table]
      sample_class [] (text_of ''T'') = Inr (e, True)"
    using fill_narrow_doc by blast
  have "locate sample_unicode [narrow_rows_table, sample_results_table] = (Some 0, Some 1, 2)"
    by (simp add: locate_def narrow_rows_table_tests sample_results_table_tests)
  then have "fill_meta sample_unicode narrow_rows_table sample_class (text_of ''T'') = Inr (e ! 0)"
    using fill_template_tables_True [OF e] by auto
  then have c: "cell_text (tbl_rows (e ! 0) ! 1 ! 2) = []"
    using fill_meta_narrow_rows by simp
  have c0: "cell_text (tbl_rows ([narrow_rows_table, sample_results_table] ! 0) ! 1 ! 2) =
      text_of ''Section:''"
    by (simp add: narrow_rows_table_def text_cell_def text_para_def cell_text_def
        paragraph_text_def)
  show ?thesis
    using a b c c0 by (simp add: d e locate_sample_doc)
qed

theorem fill_template_tables_meta_cells_witness:
  "fst (locate sample_unicode sample_doc) = Some 0 \<and>
   rectangular (sample_doc ! 0) \<and>
   \<not> isl (fill_template_tables sample_unicode sample_doc sample_class [] (text_of ''T'')) \<and>
   snd (projr (fill_template_tables sample_unicode sample_doc sample_class [] (text_of ''T''))) =
     True \<and>
   tbl_rows (fst (projr (fill_template_tables sample_unicode sample_doc sample_class []
     (text_of ''T''))) ! 0) ! 0 ! 1 =
     \<lparr>paragraphs =
            [\<lparr>runs = [blank_run,
                       \<lparr>run_text = text_of ''T'', bold = Some False, underline = Some True,
                        color = None\<rparr>],
              alignment = None, space_before = Some 0, space_after = Some 0,
              line_spacing = Some 1\<rparr>],
          cell_properties = ''borders''\<rparr> \<and>
   map runs (paragraphs (tbl_rows
     (fst (projr (fill_template_tables sample_unicode sample_doc sample_class []
        (text_of ''T''))) ! 0) ! 0 ! 0)) =
     map runs (paragraphs (tbl_rows (sample_doc ! 0) ! 0 ! 0))"
proof -
  obtain d where d: "fill_template_tables sample_unicode sample_doc sample_class []
      (text_of ''T'') = Inr (d, True)"
    using fill_sample_doc by blast
  have m: "fst (locate sample_unicode sample_doc) = Some 0"
    by (simp add: locate_sample_doc)
  have r: "rectangular (sample_doc ! 0)"
    by (simp add: sample_doc_def rectangular_sample_meta_table)
  note c = fill_template_tables_meta_cells [OF d m r]
  have len: "0 < length (tbl_rows (sample_doc ! 0))" "0 < length (tbl_rows (sample_doc ! 0) ! 0)"
    by (simp_all add: sample_doc_def sample_meta_table_def)
  have v: "tbl_rows (d ! 0) ! 0 ! 1 =
     \<lparr>paragraphs =
            [\<lparr>runs = [blank_run,
                       \<lparr>run_text = text_of ''T'', bold = Some False, underline = Some True,
                        color = None\<rparr>],
              alignment = None, space_before = Some 0, space_after = Some 0,
              line_spacing = Some 1\<rparr>],
          cell_properties = ''borders''\<rparr>"
    using c
    by (simp add: sample_doc_def sample_meta_table_def sample_class_def text_cell_def
        or_empty_def upper_def upper_code_def text_of_def)
  have l: "map runs (paragraphs (tbl_rows (d ! 0) ! 0 ! 0)) =
      map runs (paragraphs (tbl_rows (sample_doc ! 0) ! 0 ! 0))"
    using c len by simp
  show ?thesis
    using v l r by (simp add: d m)
qed

end
